theory Spec2Isabelle
  imports Complex_Main "HOL-Library.Multiset" "HOL-Library.Signed_Division"
begin

section \<open>Rows of the two streams\<close>

text \<open>
  The streaming pipeline of \<^verbatim>\<open>src/pipelines/streaming_etl.py\<close> is a chain of dataframe
  transformations. A dataframe is modelled as the list of its rows and a row as a record of
  its columns. Every column is nullable: \<^verbatim>\<open>from_json\<close> reads with the schema made
  nullable, so a column holds \<open>None\<close> (SQL NULL) or a value. An amount is a finite
  double, modelled as the real number it stands for (the section on doubles says how doubles
  are added); timestamps are integer microseconds since the epoch, strings are byte strings.

  The columns shared by both schemas come first; the transaction and the remittance
  schema (\<^verbatim>\<open>get_transaction_schema\<close>, \<^verbatim>\<open>get_remittance_schema\<close>) extend them.
  The columns that no statement below reads (the SHA-256 hashes, the year, month and day
  parts of the date and the remittance's amount with fees) are left out, and so is
  \<^verbatim>\<open>processing_timestamp\<close>: \<^verbatim>\<open>apply_streaming_transformations\<close> overwrites what was
  read for it with the wall clock before anything reads the column.
\<close>

record event_row =
  amount :: "real option"
  currency :: "string option"
  transaction_date :: "int option"
  status :: "string option"

record transaction = event_row +
  transaction_id :: "string option"
  country_code :: "string option"
  loan_id :: "string option"
  transaction_type :: "string option"
  beneficiary_id :: "string option"
  sector :: "string option"
  source :: "string option"

record remittance = event_row +
  remittance_id :: "string option"
  sender_country :: "string option"
  recipient_country :: "string option"
  exchange_rate :: "real option"
  fees :: "real option"
  sender_id :: "string option"
  recipient_id :: "string option"

text \<open>The rows after \<^verbatim>\<open>apply_streaming_transformations\<close> carry the risk indicators.\<close>

record transaction_t = transaction +
  high_value_flag :: bool

record remittance_t = remittance +
  large_remittance_flag :: bool

section \<open>Configuration\<close>

text \<open>The entries of \<^verbatim>\<open>self.alert_thresholds\<close> and the streaming settings, in microseconds.\<close>

definition high_value_transaction :: real where
  "high_value_transaction = 100000"

definition suspicious_frequency :: real where
  "suspicious_frequency = 10"

definition large_remittance :: real where
  "large_remittance = 50000"

definition minute :: int where
  "minute = 60000000"

definition watermark_delay :: int where
  "watermark_delay = 10 * minute"

section \<open>read\_kinesis\_stream\<close>

text \<open>
  \<^verbatim>\<open>read_kinesis_stream\<close> parses the payload of every record with
  \<^verbatim>\<open>from_json(col("data").cast("string"), schema)\<close> and selects the parsed columns; it
  has no filter. What a payload holds for a column of the schema is one of three things:
  nothing (the key is absent or null), a value that the column's type cannot take (a
  non-numeric amount, a date that does not parse), or a value of the column's type. A payload
  that is not a JSON object gives the NULL struct, so every column is NULL. A value that
  cannot be converted makes its column NULL; an engine that does not keep partial results
  makes the whole row NULL instead, and the flag \<open>partial_results\<close> says which engine reads.
  The payload has the twelve fields of \<^verbatim>\<open>get_transaction_schema\<close>; the last one,
  \<^verbatim>\<open>processing_timestamp\<close>, counts for whether the record can be converted and is not
  kept in the row. The transaction stream is modelled; the remittance stream is read by the
  same function with the other schema.
\<close>

datatype 'a json_field = Missing | Unparsable | Value 'a

record json_transaction =
  j_transaction_id :: "string json_field"
  j_country_code :: "string json_field"
  j_loan_id :: "string json_field"
  j_transaction_type :: "string json_field"
  j_amount :: "real json_field"
  j_currency :: "string json_field"
  j_transaction_date :: "int json_field"
  j_beneficiary_id :: "string json_field"
  j_sector :: "string json_field"
  j_status :: "string json_field"
  j_source :: "string json_field"
  j_processing_timestamp :: "int json_field"

datatype 'a payload = NotJson | Object 'a

definition column :: "'a json_field \<Rightarrow> 'a option" where
  "column f = (case f of Value v \<Rightarrow> Some v | Missing \<Rightarrow> None | Unparsable \<Rightarrow> None)"

definition bad :: "'a json_field \<Rightarrow> bool" where
  "bad f = (case f of Unparsable \<Rightarrow> True | Missing \<Rightarrow> False | Value v \<Rightarrow> False)"

definition bad_record :: "json_transaction \<Rightarrow> bool" where
  "bad_record j =
     (bad (j_transaction_id j) \<or> bad (j_country_code j) \<or> bad (j_loan_id j)
      \<or> bad (j_transaction_type j) \<or> bad (j_amount j) \<or> bad (j_currency j)
      \<or> bad (j_transaction_date j) \<or> bad (j_beneficiary_id j) \<or> bad (j_sector j)
      \<or> bad (j_status j) \<or> bad (j_source j) \<or> bad (j_processing_timestamp j))"

definition null_transaction :: transaction where
  "null_transaction =
     \<lparr> amount = None, currency = None, transaction_date = None, status = None,
       transaction_id = None, country_code = None, loan_id = None, transaction_type = None,
       beneficiary_id = None, sector = None, source = None \<rparr>"

definition columns :: "json_transaction \<Rightarrow> transaction" where
  "columns j =
     \<lparr> amount = column (j_amount j), currency = column (j_currency j),
       transaction_date = column (j_transaction_date j), status = column (j_status j),
       transaction_id = column (j_transaction_id j), country_code = column (j_country_code j),
       loan_id = column (j_loan_id j), transaction_type = column (j_transaction_type j),
       beneficiary_id = column (j_beneficiary_id j), sector = column (j_sector j),
       source = column (j_source j) \<rparr>"

definition from_json :: "bool \<Rightarrow> json_transaction payload \<Rightarrow> transaction" where
  "from_json partial_results d =
     (case d of
        NotJson \<Rightarrow> null_transaction
      | Object j \<Rightarrow>
          if partial_results then columns j
          else if bad_record j then null_transaction
          else columns j)"

definition read_kinesis_stream :: "bool \<Rightarrow> json_transaction payload list \<Rightarrow> transaction list" where
  "read_kinesis_stream partial_results stream = map (from_json partial_results) stream"

text \<open>
  The batch pipeline (\<^verbatim>\<open>src/pipelines/batch_etl.py\<close>) reads transactions with the same
  eleven columns and passes them through \<^verbatim>\<open>apply_data_quality_checks\<close>, which for the
  dataset \<^verbatim>\<open>"transactional"\<close> drops duplicate rows and keeps the rows whose
  \<^verbatim>\<open>transaction_id\<close>, \<^verbatim>\<open>amount\<close> and \<^verbatim>\<open>transaction_date\<close> are not NULL. The
  two columns it adds are left out.
\<close>

definition isNotNull :: "'a option \<Rightarrow> bool" where
  "isNotNull c = (c \<noteq> None)"

definition apply_data_quality_checks_transactional :: "transaction list \<Rightarrow> transaction list" where
  "apply_data_quality_checks_transactional df =
     filter (\<lambda>r. isNotNull (transaction_id r) \<and> isNotNull (amount r)
                \<and> isNotNull (transaction_date r))
       (remdups df)"

section \<open>Column expressions\<close>

text \<open>
  SQL comparisons are three-valued: a comparison with NULL is NULL. \<^verbatim>\<open>filter\<close> keeps the
  rows whose condition is true, and a \<^verbatim>\<open>when\<close> branch is taken when its condition is
  true; NULL is not true in either place.
\<close>

fun sql_or :: "bool option \<Rightarrow> bool option \<Rightarrow> bool option" where
  "sql_or (Some True) b = Some True"
| "sql_or a (Some True) = Some True"
| "sql_or (Some False) (Some False) = Some False"
| "sql_or a b = None"

definition sql_eq :: "'a option \<Rightarrow> 'a \<Rightarrow> bool option" where
  "sql_eq c v = map_option (\<lambda>x. x = v) c"

definition sql_lt :: "real option \<Rightarrow> real \<Rightarrow> bool option" where
  "sql_lt c v = map_option (\<lambda>x. x < v) c"

definition sql_gt :: "real option \<Rightarrow> real \<Rightarrow> bool option" where
  "sql_gt c v = map_option (\<lambda>x. x > v) c"

definition isNull :: "'a option \<Rightarrow> bool option" where
  "isNull c = Some (c = None)"

text \<open>\<^verbatim>\<open>when(c1, v1).when(c2, v2) ... .otherwise(d)\<close>: the first branch whose condition is true.\<close>

fun case_when :: "(bool option \<times> 'a) list \<Rightarrow> 'a \<Rightarrow> 'a" where
  "case_when [] d = d"
| "case_when ((c, v) # bs) d = (if c = Some True then v else case_when bs d)"

text \<open>
  \<^verbatim>\<open>upper\<close> on the letters a to z, and \<^verbatim>\<open>trim\<close>, which in Spark strips the space
  character (0x20) and nothing else from both ends.
\<close>

definition upper_char :: "char \<Rightarrow> char" where
  "upper_char c =
     (let n = (of_char c :: nat) in if 97 \<le> n \<and> n \<le> 122 then char_of (n - 32) else c)"

definition upper :: "string \<Rightarrow> string" where
  "upper s = map upper_char s"

definition ltrim :: "string \<Rightarrow> string" where
  "ltrim s = dropWhile (\<lambda>c. c = CHR '' '') s"

definition trim :: "string \<Rightarrow> string" where
  "trim s = rev (ltrim (rev (ltrim s)))"

section \<open>apply\_streaming\_transformations\<close>

text \<open>
  One row of the \<^verbatim>\<open>"transactions"\<close> branch: the three code columns are trimmed and
  upper-cased, and the flag is \<^verbatim>\<open>when(amount > threshold, True).otherwise(False)\<close>,
  which is false on a NULL amount.
\<close>

definition transform_transaction :: "transaction \<Rightarrow> transaction_t" where
  "transform_transaction r =
     \<lparr> amount = amount r, currency = currency r, transaction_date = transaction_date r,
       status = status r, transaction_id = transaction_id r,
       country_code = map_option (upper \<circ> trim) (country_code r),
       loan_id = loan_id r,
       transaction_type = map_option (upper \<circ> trim) (transaction_type r),
       beneficiary_id = beneficiary_id r,
       sector = map_option (upper \<circ> trim) (sector r),
       source = source r,
       high_value_flag = case_when [(sql_gt (amount r) high_value_transaction, True)] False \<rparr>"

text \<open>One row of the \<^verbatim>\<open>"remittances"\<close> branch.\<close>

definition transform_remittance :: "remittance \<Rightarrow> remittance_t" where
  "transform_remittance r =
     \<lparr> amount = amount r, currency = currency r, transaction_date = transaction_date r,
       status = status r, remittance_id = remittance_id r,
       sender_country = map_option (upper \<circ> trim) (sender_country r),
       recipient_country = map_option (upper \<circ> trim) (recipient_country r),
       exchange_rate = exchange_rate r, fees = fees r,
       sender_id = sender_id r, recipient_id = recipient_id r,
       large_remittance_flag = case_when [(sql_gt (amount r) large_remittance, True)] False \<rparr>"

definition apply_streaming_transformations_tx :: "transaction list \<Rightarrow> transaction_t list" where
  "apply_streaming_transformations_tx df = map transform_transaction df"

definition apply_streaming_transformations_rm :: "remittance list \<Rightarrow> remittance_t list" where
  "apply_streaming_transformations_rm df = map transform_remittance df"

section \<open>create\_alert\_stream\<close>

text \<open>
  The filter condition and the \<^verbatim>\<open>alert_type\<close> column of each branch, as written in the
  source. An alert row is the source row (of which \<^verbatim>\<open>select\<close> keeps six columns) with
  its alert type; \<^verbatim>\<open>alert_timestamp\<close> is the wall clock and is left out.
\<close>

definition alert_filter_tx :: "transaction_t \<Rightarrow> bool option" where
  "alert_filter_tx r =
     sql_or (sql_or (sql_eq (Some (high_value_flag r)) True) (sql_eq (status r) ''FAILED''))
            (sql_lt (amount r) 0)"

definition alert_type_tx :: "transaction_t \<Rightarrow> string" where
  "alert_type_tx r =
     case_when [(sql_eq (Some (high_value_flag r)) True, ''HIGH_VALUE_TRANSACTION''),
                (sql_eq (status r) ''FAILED'', ''FAILED_TRANSACTION''),
                (sql_lt (amount r) 0, ''NEGATIVE_AMOUNT'')] ''OTHER''"

definition create_alert_stream_tx :: "transaction_t list \<Rightarrow> (transaction_t \<times> string) list" where
  "create_alert_stream_tx df =
     map (\<lambda>r. (r, alert_type_tx r)) (filter (\<lambda>r. alert_filter_tx r = Some True) df)"

definition alert_filter_rm :: "remittance_t \<Rightarrow> bool option" where
  "alert_filter_rm r =
     sql_or (sql_or (sql_or (sql_eq (Some (large_remittance_flag r)) True)
                            (sql_eq (status r) ''FAILED''))
                    (sql_lt (amount r) 0))
            (isNull (exchange_rate r))"

definition alert_type_rm :: "remittance_t \<Rightarrow> string" where
  "alert_type_rm r =
     case_when [(sql_eq (Some (large_remittance_flag r)) True, ''LARGE_REMITTANCE''),
                (sql_eq (status r) ''FAILED'', ''FAILED_REMITTANCE''),
                (sql_lt (amount r) 0, ''NEGATIVE_AMOUNT''),
                (isNull (exchange_rate r), ''MISSING_EXCHANGE_RATE'')] ''OTHER''"

definition create_alert_stream_rm :: "remittance_t list \<Rightarrow> (remittance_t \<times> string) list" where
  "create_alert_stream_rm df =
     map (\<lambda>r. (r, alert_type_rm r)) (filter (\<lambda>r. alert_filter_rm r = Some True) df)"

text \<open>
  The alert streams as \<^verbatim>\<open>process_transaction_stream\<close> and
  \<^verbatim>\<open>process_remittance_stream\<close> build them: from the transformed frame.
\<close>

definition transaction_alerts :: "transaction list \<Rightarrow> (transaction_t \<times> string) list" where
  "transaction_alerts df = create_alert_stream_tx (apply_streaming_transformations_tx df)"

definition remittance_alerts :: "remittance list \<Rightarrow> (remittance_t \<times> string) list" where
  "remittance_alerts df = create_alert_stream_rm (apply_streaming_transformations_rm df)"

section \<open>Sliding windows\<close>

text \<open>
  The column expression \<^verbatim>\<open>window("transaction_date", "5 minutes", "1 minute")\<close>. Spark
  computes, for a timestamp, the start of the last window that begins at or before it (the
  remainder of Java's \<^verbatim>\<open>%\<close> is made non-negative), steps back one slide at a time
  for as many windows as can overlap, and keeps the windows that contain the timestamp. A
  row whose timestamp is NULL is in no window.
\<close>

definition last_start :: "int \<Rightarrow> int \<Rightarrow> int" where
  "last_start ts slide =
     (let remainder = ts smod slide
      in ts - (if remainder < 0 then remainder + slide else remainder))"

definition max_num_overlapping :: "int \<Rightarrow> int \<Rightarrow> nat" where
  "max_num_overlapping len slide = nat \<lceil>real_of_int len / real_of_int slide\<rceil>"

definition window_starts :: "int \<Rightarrow> int \<Rightarrow> int \<Rightarrow> int list" where
  "window_starts ts len slide =
     filter (\<lambda>s. s \<le> ts \<and> ts < s + len)
       (map (\<lambda>i. last_start ts slide - int i * slide) [0..<max_num_overlapping len slide])"

definition window :: "int option \<Rightarrow> int \<Rightarrow> int \<Rightarrow> (int \<times> int) list" where
  "window c len slide =
     (case c of None \<Rightarrow> [] | Some ts \<Rightarrow> map (\<lambda>s. (s, s + len)) (window_starts ts len slide))"

section \<open>Doubles\<close>

text \<open>
  The amount columns are \<^verbatim>\<open>DoubleType\<close>. A finite double is modelled as the real number
  it stands for, and the amount of a row is a finite double; NaN and the infinities are not
  modelled as amounts, and the sign of zero is not modelled. Comparisons, maximum and
  minimum of finite doubles are exact. Addition is not: the exact sum is rounded to the
  nearest double, ties to the even significand (the rounding of IEEE 754 that the JVM uses). A
  double has 53 significant bits: a number \<open>x\<close> with \<open>2^e \<le> |x| < 2^(e+1)\<close> is rounded to
  a multiple of \<open>2^(e-52)\<close>, where \<open>e\<close> is not taken below -1022 (the subnormal numbers
  are the multiples of \<open>2^-1074\<close>), and a rounded value of magnitude \<open>2^1024\<close> or more is
  an infinity.
\<close>

datatype double = Finite real | PosInfinity | NegInfinity

definition pow2 :: "int \<Rightarrow> real" where
  "pow2 k = (if 0 \<le> k then 2 ^ nat k else 1 / 2 ^ nat (- k))"

definition round_half_even :: "real \<Rightarrow> int" where
  "round_half_even y =
     (let n = \<lfloor>y\<rfloor>; d = y - of_int n
      in if d < 1 / 2 then n else if 1 / 2 < d then n + 1 else if even n then n else n + 1)"

definition exponent :: "real \<Rightarrow> int" where
  "exponent x = max \<lfloor>log 2 \<bar>x\<bar>\<rfloor> (- 1022)"

definition round_double :: "real \<Rightarrow> double" where
  "round_double x =
     (if x = 0 then Finite 0
      else let ulp = pow2 (exponent x - 52);
               y = of_int (round_half_even (x / ulp)) * ulp
           in if 2 ^ 1024 \<le> y then PosInfinity
              else if y \<le> - (2 ^ 1024) then NegInfinity
              else Finite y)"

text \<open>The sum of a double and a finite double.\<close>

fun double_add :: "double \<Rightarrow> real \<Rightarrow> double" where
  "double_add (Finite u) v = round_double (u + v)"
| "double_add PosInfinity v = PosInfinity"
| "double_add NegInfinity v = NegInfinity"

section \<open>create\_real\_time\_analytics\<close>

text \<open>
  The aggregation columns of the \<^verbatim>\<open>"transactions"\<close> branch. \<^verbatim>\<open>count("*")\<close> counts
  rows; \<^verbatim>\<open>sum\<close>, \<^verbatim>\<open>max\<close> and \<^verbatim>\<open>min\<close> skip NULL amounts and are NULL when every
  amount is NULL. The buffer of \<^verbatim>\<open>sum\<close> starts as NULL; the first amount \<open>v\<close> makes it
  \<open>0.0 + v\<close>, which is \<open>v\<close>, and every further amount is added to it as doubles are. The
  aggregate of a group is the fold of \<open>agg_update\<close> over the amounts of its rows, in the
  order in which the rows arrive. \<^verbatim>\<open>avg\<close> and the columns derived from the count
  (\<^verbatim>\<open>transaction_rate_per_minute\<close>, \<^verbatim>\<open>high_frequency_flag\<close>) are read by no statement
  below and are left out.
\<close>

record window_stats =
  transaction_count :: nat
  total_amount :: "double option"
  max_amount :: "real option"
  min_amount :: "real option"

definition merge_value :: "(real \<Rightarrow> real \<Rightarrow> real) \<Rightarrow> real option \<Rightarrow> real option \<Rightarrow> real option" where
  "merge_value f buffer x =
     (case x of None \<Rightarrow> buffer
      | Some v \<Rightarrow> (case buffer of None \<Rightarrow> Some v | Some u \<Rightarrow> Some (f u v)))"

definition sum_update :: "double option \<Rightarrow> real option \<Rightarrow> double option" where
  "sum_update buffer x =
     (case x of None \<Rightarrow> buffer
      | Some v \<Rightarrow> (case buffer of None \<Rightarrow> Some (Finite v) | Some u \<Rightarrow> Some (double_add u v)))"

definition agg_init :: window_stats where
  "agg_init = \<lparr> transaction_count = 0, total_amount = None,
                max_amount = None, min_amount = None \<rparr>"

definition agg_update :: "real option \<Rightarrow> window_stats \<Rightarrow> window_stats" where
  "agg_update x a =
     \<lparr> transaction_count = transaction_count a + 1,
       total_amount = sum_update (total_amount a) x,
       max_amount = merge_value max (max_amount a) x,
       min_amount = merge_value min (min_amount a) x \<rparr>"

text \<open>
  \<^verbatim>\<open>groupBy(window(...), "country_code", "transaction_type")\<close>: a row belongs to one
  group per window of its timestamp. The aggregated frame is a map from group keys to
  aggregates, defined on the keys that have a row. The frame passed in holds the rows the
  engine has accepted; \<^verbatim>\<open>withWatermark\<close> decides which rows those are.
\<close>

type_synonym tx_key = "(int \<times> int) \<times> string option \<times> string option"

definition tx_group_keys :: "transaction_t \<Rightarrow> tx_key list" where
  "tx_group_keys r =
     map (\<lambda>w. (w, country_code r, transaction_type r))
       (window (transaction_date r) (5 * minute) minute)"

definition create_real_time_analytics_tx :: "transaction_t list \<Rightarrow> tx_key \<Rightarrow> window_stats option" where
  "create_real_time_analytics_tx df k =
     (let rows = filter (\<lambda>r. k \<in> set (tx_group_keys r)) df
      in if rows = [] then None else Some (fold agg_update (map amount rows) agg_init))"

definition transaction_analytics :: "transaction list \<Rightarrow> tx_key \<Rightarrow> window_stats option" where
  "transaction_analytics df = create_real_time_analytics_tx (apply_streaming_transformations_tx df)"


definition group_amounts :: "transaction_t list \<Rightarrow> tx_key \<Rightarrow> real option list" where
  "group_amounts df k = map amount (filter (\<lambda>r. k \<in> set (tx_group_keys r)) df)"




section \<open>Codes that differ by case and blanks\<close>

text \<open>
  Two characters are the same letter when they are equal or are the upper-case and lower-case
  form of one of the letters A to Z. Two codes are variants of each other when each is a core
  between leading and trailing blanks and the cores are letter by letter the same. What
  counts as a blank is a parameter: the space character alone, or any ASCII whitespace
  (space, tab, line feed, vertical tab, form feed, carriage return).
\<close>

definition same_letter :: "char \<Rightarrow> char \<Rightarrow> bool" where
  "same_letter c d =
     (let m = (of_char c :: nat); n = (of_char d :: nat)
      in m = n \<or> (65 \<le> m \<and> m \<le> 90 \<and> n = m + 32) \<or> (65 \<le> n \<and> n \<le> 90 \<and> m = n + 32))"

definition is_space :: "char \<Rightarrow> bool" where
  "is_space c = (c = CHR '' '')"

definition is_whitespace :: "char \<Rightarrow> bool" where
  "is_whitespace c = ((of_char c :: nat) = 32 \<or> (9 \<le> (of_char c :: nat) \<and> (of_char c :: nat) \<le> 13))"

definition code_variant :: "(char \<Rightarrow> bool) \<Rightarrow> string \<Rightarrow> string \<Rightarrow> bool" where
  "code_variant blank a b =
     (\<exists>p q p' q' s t. a = p @ s @ q \<and> b = p' @ t @ q'
        \<and> list_all blank p \<and> list_all blank q \<and> list_all blank p' \<and> list_all blank q'
        \<and> list_all2 same_letter s t)"

section \<open>The engine of the specification\<close>

text \<open>
  Modelled from the spec: the Watermark Tracker, the Accumulator, the Window Finalizer and
  the loop of the Stream Coordinator. The source configures them
  (\<^verbatim>\<open>withWatermark("transaction_date", "10 minutes")\<close>, \<^verbatim>\<open>outputMode("append")\<close>) and
  leaves their work to the streaming engine, so their code is not in the repository. The
  model follows sections 3 and 4.2 to 4.6 of the specification, for one partition of the
  transaction stream, on top of the window assignment and the aggregate update of the
  source. The allowed lateness is a parameter.
\<close>

record engine =
  maxEventTimeSeen :: int
  accumulator :: "(tx_key \<times> window_stats) list"
  sink :: "(tx_key \<times> window_stats) list"
  dropped_late :: nat

text \<open>
  Modelled from the spec: the Watermark Tracker (section 4.2). On each accepted event
  \<^verbatim>\<open>maxEventTimeSeen = max(maxEventTimeSeen, event.event_time)\<close>, the watermark is
  \<^verbatim>\<open>W = maxEventTimeSeen - allowedLateness\<close> and \<^verbatim>\<open>isLate(event_time) = event_time < W\<close>.
\<close>

definition currentWatermark :: "int \<Rightarrow> engine \<Rightarrow> int" where
  \<comment> \<open>Modelled from the spec: \<^verbatim>\<open>W = maxEventTimeSeen - allowedLateness\<close> (section 4.2).\<close>
  "currentWatermark allowedLateness s = maxEventTimeSeen s - allowedLateness"

definition isLate :: "int \<Rightarrow> engine \<Rightarrow> int \<Rightarrow> bool" where
  \<comment> \<open>Modelled from the spec: \<^verbatim>\<open>isLate(event_time) = event_time < W\<close> (section 4.2).\<close>
  "isLate allowedLateness s event_time = (event_time < currentWatermark allowedLateness s)"

definition track :: "int \<Rightarrow> engine \<Rightarrow> engine" where
  \<comment> \<open>Modelled from the spec: the update of the tracker on an accepted event (section 4.2).\<close>
  "track event_time s = s\<lparr>maxEventTimeSeen := max (maxEventTimeSeen s) event_time\<rparr>"

text \<open>
  Modelled from the spec: the Accumulator (sections 3 and 4.3), a mapping from window key to
  aggregate. A window is created by the first event that maps to it and updated by folding
  the later ones; a late event is dropped from this path and counted. The tracker sees the
  event before the lateness test; with a non-negative lateness the test gives the same
  answer before and after. A row without timestamp is not a valid event and never reaches
  the Accumulator.
\<close>

fun upsert :: "'k \<Rightarrow> real option \<Rightarrow> ('k \<times> window_stats) list \<Rightarrow> ('k \<times> window_stats) list" where
  \<comment> \<open>Modelled from the spec: the window is created on the first event that maps to it, mutated by the next ones (section 3).\<close>
  "upsert k x [] = [(k, agg_update x agg_init)]"
| "upsert k x (p # m) =
     (if fst p = k then (k, agg_update x (snd p)) # m else p # upsert k x m)"

definition accumulate :: "int \<Rightarrow> transaction_t \<Rightarrow> engine \<Rightarrow> engine" where
  \<comment> \<open>Modelled from the spec: the stateful path of an accepted event (sections 3, 4.2, 4.3).\<close>
  "accumulate allowedLateness r s =
     (case transaction_date r of
        None \<Rightarrow> s
      | Some t \<Rightarrow>
          let s' = track t s
          in if isLate allowedLateness s' t then s'\<lparr>dropped_late := dropped_late s' + 1\<rparr>
             else s'\<lparr>accumulator :=
                       fold (\<lambda>k. upsert k (amount r)) (tx_group_keys r) (accumulator s')\<rparr>)"

text \<open>
  Modelled from the spec: one record on both paths (section 4.6). The alert of the record is
  the one \<^verbatim>\<open>create_alert_stream\<close> of the source computes.
\<close>

definition process_event :: "int \<Rightarrow> transaction \<Rightarrow> engine
    \<Rightarrow> engine \<times> (transaction_t \<times> string) list" where
  \<comment> \<open>Modelled from the spec: the record goes through the Accumulator and the Alert Evaluator (section 4.6).\<close>
  "process_event allowedLateness x s =
     (accumulate allowedLateness (transform_transaction x) s, transaction_alerts [x])"

text \<open>
  Modelled from the spec: the Window Finalizer (section 4.4). Every window key with
  \<^verbatim>\<open>window_end + allowedLateness <= currentWatermark()\<close> is emitted to the Sink and
  removed from the mapping.
\<close>

definition window_end :: "tx_key \<Rightarrow> int" where
  \<comment> \<open>Modelled from the spec: the end of the window of a window key (section 3).\<close>
  "window_end k = snd (fst k)"

definition due :: "int \<Rightarrow> engine \<Rightarrow> tx_key \<Rightarrow> bool" where
  \<comment> \<open>Modelled from the spec: \<^verbatim>\<open>window_end + allowedLateness <= currentWatermark()\<close> (section 4.4).\<close>
  "due allowedLateness s k = (window_end k + allowedLateness \<le> currentWatermark allowedLateness s)"

definition finalize :: "int \<Rightarrow> engine \<Rightarrow> engine" where
  \<comment> \<open>Modelled from the spec: a pass of the Window Finalizer (section 4.4).\<close>
  "finalize allowedLateness s =
     s\<lparr>sink := sink s @ filter (\<lambda>p. due allowedLateness s (fst p)) (accumulator s),
       accumulator := filter (\<lambda>p. \<not> due allowedLateness s (fst p)) (accumulator s)\<rparr>"

text \<open>
  Modelled from the spec: an execution without failures or retries is a sequence of accepted
  events and finalizer passes, from a state with an empty mapping and an empty Sink.
\<close>

datatype step = Event transaction_t | Finalize

fun run :: "int \<Rightarrow> step list \<Rightarrow> engine \<Rightarrow> engine" where
  \<comment> \<open>Modelled from the spec: the sequential loop of one partition (sections 4.6 and 5).\<close>
  "run A [] s = s"
| "run A (Event r # steps) s = run A steps (accumulate A r s)"
| "run A (Finalize # steps) s = run A steps (finalize A s)"

definition start :: "int \<Rightarrow> engine" where
  \<comment> \<open>Modelled from the spec: the state at start: nothing accumulated, nothing emitted.\<close>
  "start t = \<lparr>maxEventTimeSeen = t, accumulator = [], sink = [], dropped_late = 0\<rparr>"

text \<open>
  The invariant of an execution: the keys of the mapping and the keys in the Sink are each
  without duplicates, every key in the Sink is due, and no key is in both. A key is known
  when it is in the mapping or in the Sink.
\<close>

definition engine_inv :: "int \<Rightarrow> engine \<Rightarrow> bool" where
  "engine_inv A s = (distinct (map fst (accumulator s)) \<and> distinct (map fst (sink s))
     \<and> list_all (due A s) (map fst (sink s))
     \<and> list_all (\<lambda>k. k \<notin> set (map fst (sink s))) (map fst (accumulator s)))"

definition known :: "engine \<Rightarrow> tx_key set" where
  "known s = fst ` set (accumulator s) \<union> fst ` set (sink s)"

text \<open>
  A delivery within the allowed-lateness bound: no event of the sequence is late when it
  arrives.
\<close>

fun none_late :: "int \<Rightarrow> engine \<Rightarrow> transaction_t list \<Rightarrow> bool" where
  "none_late A s [] = True"
| "none_late A s (r # rs) =
     ((case transaction_date r of None \<Rightarrow> True | Some t \<Rightarrow> \<not> isLate A (track t s) t)
      \<and> none_late A (accumulate A r s) rs)"

section \<open>Example rows\<close>

definition remittance_no_rate :: remittance where
  "remittance_no_rate =
     \<lparr> amount = Some 100, currency = Some ''USD'', transaction_date = Some 0,
       status = Some ''SUCCESS'', remittance_id = Some ''R1'',
       sender_country = Some ''us'', recipient_country = Some ''hn'',
       exchange_rate = None, fees = None, sender_id = None, recipient_id = None \<rparr>"

definition failed_remittance_no_rate :: remittance where
  "failed_remittance_no_rate =
     \<lparr> amount = Some 100, currency = Some ''USD'', transaction_date = Some 0,
       status = Some ''FAILED'', remittance_id = Some ''R3'',
       sender_country = Some ''us'', recipient_country = Some ''hn'',
       exchange_rate = None, fees = None, sender_id = None, recipient_id = None \<rparr>"

definition negative_transaction_t :: transaction_t where
  "negative_transaction_t =
     \<lparr> amount = Some (- 20), currency = Some ''USD'', transaction_date = Some 0,
       status = None, transaction_id = Some ''T3'', country_code = Some ''HN'',
       loan_id = None, transaction_type = Some ''PAYMENT'', beneficiary_id = None,
       sector = None, source = None, high_value_flag = False \<rparr>"

definition rate_missing_remittance_t :: remittance_t where
  "rate_missing_remittance_t =
     \<lparr> amount = None, currency = None, transaction_date = None,
       status = None, remittance_id = Some ''R2'',
       sender_country = Some ''US'', recipient_country = Some ''HN'',
       exchange_rate = None, fees = None, sender_id = None, recipient_id = None,
       large_remittance_flag = False \<rparr>"

text \<open>A time of day on 1970-01-01, in microseconds.\<close>

definition hms :: "int \<Rightarrow> int \<Rightarrow> int \<Rightarrow> int" where
  "hms h m s = ((h * 60 + m) * 60 + s) * 1000000"

definition payment :: "string \<Rightarrow> real \<Rightarrow> int \<Rightarrow> transaction" where
  "payment i a t =
     \<lparr> amount = Some a, currency = Some ''USD'', transaction_date = Some t,
       status = Some ''SUCCESS'', transaction_id = Some i, country_code = Some ''hn'',
       loan_id = None, transaction_type = Some ''Payment'', beneficiary_id = None,
       sector = Some ''agri'', source = None \<rparr>"

definition failed_payment :: "string \<Rightarrow> real \<Rightarrow> int \<Rightarrow> transaction" where
  "failed_payment i a t =
     \<lparr> amount = Some a, currency = Some ''USD'', transaction_date = Some t,
       status = Some ''FAILED'', transaction_id = Some i, country_code = Some ''hn'',
       loan_id = None, transaction_type = Some ''Payment'', beneficiary_id = None,
       sector = Some ''agri'', source = None \<rparr>"

definition coded :: "string \<Rightarrow> string \<Rightarrow> string \<Rightarrow> transaction" where
  "coded cc tt sec =
     \<lparr> amount = Some 75, currency = Some ''USD'', transaction_date = Some (hms 12 3 30),
       status = Some ''SUCCESS'', transaction_id = Some ''T9'', country_code = Some cc,
       loan_id = None, transaction_type = Some tt, beneficiary_id = None,
       sector = Some sec, source = None \<rparr>"

definition no_amount :: json_transaction where
  "no_amount =
     \<lparr> j_transaction_id = Value ''T7'', j_country_code = Value ''HN'', j_loan_id = Missing,
       j_transaction_type = Value ''PAYMENT'', j_amount = Missing, j_currency = Value ''USD'',
       j_transaction_date = Value 0, j_beneficiary_id = Missing, j_sector = Value ''AGRI'',
       j_status = Value ''SUCCESS'', j_source = Missing,
       j_processing_timestamp = Missing \<rparr>"

definition negative_unknown_sector :: json_transaction where
  "negative_unknown_sector =
     \<lparr> j_transaction_id = Value ''T8'', j_country_code = Value ''HN'', j_loan_id = Missing,
       j_transaction_type = Value ''PAYMENT'', j_amount = Value (- 20), j_currency = Value ''USD'',
       j_transaction_date = Value 0, j_beneficiary_id = Missing, j_sector = Value ''??'',
       j_status = Missing, j_source = Missing,
       j_processing_timestamp = Missing \<rparr>"

definition first_event :: transaction_t where
  "first_event = transform_transaction (payment ''T1'' 50 (hms 12 3 30))"

definition later_event :: transaction_t where
  "later_event = transform_transaction (payment ''T2'' 75 (hms 12 40 0))"

definition noon_key :: tx_key where
  "noon_key = ((hms 12 0 0, hms 12 5 0), Some ''HN'', Some ''PAYMENT'')"

text \<open>
  An execution for a late event: events at 12:21 and 12:30 have arrived, so the watermark
  is 12:20 and the window from 12:19 to 12:24 is in the mapping and not due.
\<close>

definition open_key :: tx_key where
  "open_key = ((hms 12 19 0, hms 12 24 0), Some ''HN'', Some ''PAYMENT'')"

definition open_state :: engine where
  "open_state =
     run watermark_delay
       [Event (transform_transaction (payment ''T1'' 50 (hms 12 21 0))),
        Event (transform_transaction (payment ''T2'' 75 (hms 12 30 0)))] (start 0)"

definition late_payment :: transaction where
  "late_payment = payment ''T3'' (- 20) (hms 12 19 30)"

text \<open>What follows the late event: an event at 12:45 and a pass of the finalizer.\<close>

definition closing_steps :: "step list" where
  "closing_steps = [Event (transform_transaction (payment ''T4'' 10 (hms 12 45 0))), Finalize]"

definition unreadable_date :: json_transaction where
  "unreadable_date =
     \<lparr> j_transaction_id = Missing, j_country_code = Value ''HN'', j_loan_id = Missing,
       j_transaction_type = Value ''PAYMENT'', j_amount = Unparsable, j_currency = Value ''USD'',
       j_transaction_date = Unparsable, j_beneficiary_id = Missing, j_sector = Value ''AGRI'',
       j_status = Value ''SUCCESS'', j_source = Missing,
       j_processing_timestamp = Missing \<rparr>"

section \<open>Three-valued conditions\<close>

lemma sql_or_True: "sql_or a b = Some True \<longleftrightarrow> a = Some True \<or> b = Some True"
  by (cases "(a, b)" rule: sql_or.cases) auto

lemma sql_eq_True: "sql_eq c v = Some True \<longleftrightarrow> c = Some v"
  by (cases c) (auto simp: sql_eq_def)

lemma sql_lt_True: "sql_lt c v = Some True \<longleftrightarrow> (\<exists>a. c = Some a \<and> a < v)"
  by (cases c) (auto simp: sql_lt_def)

lemma isNull_True: "isNull c = Some True \<longleftrightarrow> c = None"
  by (simp add: isNull_def)

section \<open>The alert rules\<close>

lemma high_value_flag_transform:
  "high_value_flag (transform_transaction x) \<longleftrightarrow>
     (\<exists>a. amount x = Some a \<and> a > high_value_transaction)"
  by (cases "amount x") (auto simp: transform_transaction_def sql_gt_def)

lemma large_remittance_flag_transform:
  "large_remittance_flag (transform_remittance x) \<longleftrightarrow>
     (\<exists>a. amount x = Some a \<and> a > large_remittance)"
  by (cases "amount x") (auto simp: transform_remittance_def sql_gt_def)

lemma transform_transaction_keeps:
  "status (transform_transaction x) = status x"
  "amount (transform_transaction x) = amount x"
  "transaction_date (transform_transaction x) = transaction_date x"
  by (simp_all add: transform_transaction_def)

lemma transform_remittance_keeps:
  "status (transform_remittance x) = status x"
  "amount (transform_remittance x) = amount x"
  "exchange_rate (transform_remittance x) = exchange_rate x"
  by (simp_all add: transform_remittance_def)

lemma transaction_alerts_single:
  "transaction_alerts [x] =
     (if (\<exists>a. amount x = Some a \<and> a > high_value_transaction)
        then [(transform_transaction x, ''HIGH_VALUE_TRANSACTION'')]
      else if status x = Some ''FAILED'' then [(transform_transaction x, ''FAILED_TRANSACTION'')]
      else if (\<exists>a. amount x = Some a \<and> a < 0) then [(transform_transaction x, ''NEGATIVE_AMOUNT'')]
      else [])"
  by (cases "amount x")
     (auto simp: transaction_alerts_def apply_streaming_transformations_tx_def
       create_alert_stream_tx_def alert_filter_tx_def alert_type_tx_def
       sql_or_True sql_eq_True sql_lt_True high_value_flag_transform transform_transaction_keeps)

lemma remittance_alerts_single:
  "remittance_alerts [y] =
     (if (\<exists>a. amount y = Some a \<and> a > large_remittance)
        then [(transform_remittance y, ''LARGE_REMITTANCE'')]
      else if status y = Some ''FAILED'' then [(transform_remittance y, ''FAILED_REMITTANCE'')]
      else if (\<exists>a. amount y = Some a \<and> a < 0) then [(transform_remittance y, ''NEGATIVE_AMOUNT'')]
      else if exchange_rate y = None then [(transform_remittance y, ''MISSING_EXCHANGE_RATE'')]
      else [])"
  by (cases "amount y")
     (auto simp: remittance_alerts_def apply_streaming_transformations_rm_def
       create_alert_stream_rm_def alert_filter_rm_def alert_type_rm_def
       sql_or_True sql_eq_True sql_lt_True isNull_True large_remittance_flag_transform
       transform_remittance_keeps)

text \<open>
  Claim C5, amended. The alert stream of a single event holds at most one alert, chosen by
  the first rule that matches, in this order: the amount is above the threshold of the
  event's type, 100000 for a transaction and 50000 for a remittance
  (\<^verbatim>\<open>HIGH_VALUE_TRANSACTION\<close> for a transaction, \<^verbatim>\<open>LARGE_REMITTANCE\<close> for a
  remittance); the status is \<^verbatim>\<open>FAILED\<close> (\<^verbatim>\<open>FAILED_TRANSACTION\<close> for a
  transaction, \<^verbatim>\<open>FAILED_REMITTANCE\<close> for a remittance); the amount is negative
  (\<^verbatim>\<open>NEGATIVE_AMOUNT\<close>); for a remittance only, the exchange rate is absent
  (\<^verbatim>\<open>MISSING_EXCHANGE_RATE\<close>); otherwise there is no alert. In particular a
  remittance of amount 100 without exchange rate, whose status is not \<^verbatim>\<open>FAILED\<close>,
  yields \<^verbatim>\<open>MISSING_EXCHANGE_RATE\<close> and not \<^verbatim>\<open>LARGE_REMITTANCE\<close>.
\<close>

theorem alert_rules_first_match_wins:
  "transaction_alerts [x] =
     (if (\<exists>a. amount x = Some a \<and> a > high_value_transaction)
        then [(transform_transaction x, ''HIGH_VALUE_TRANSACTION'')]
      else if status x = Some ''FAILED'' then [(transform_transaction x, ''FAILED_TRANSACTION'')]
      else if (\<exists>a. amount x = Some a \<and> a < 0) then [(transform_transaction x, ''NEGATIVE_AMOUNT'')]
      else [])
   \<and> remittance_alerts [y] =
     (if (\<exists>a. amount y = Some a \<and> a > large_remittance)
        then [(transform_remittance y, ''LARGE_REMITTANCE'')]
      else if status y = Some ''FAILED'' then [(transform_remittance y, ''FAILED_REMITTANCE'')]
      else if (\<exists>a. amount y = Some a \<and> a < 0) then [(transform_remittance y, ''NEGATIVE_AMOUNT'')]
      else if exchange_rate y = None then [(transform_remittance y, ''MISSING_EXCHANGE_RATE'')]
      else [])
   \<and> (amount z = Some 100 \<and> exchange_rate z = None \<and> status z \<noteq> Some ''FAILED'' \<longrightarrow>
        remittance_alerts [z] = [(transform_remittance z, ''MISSING_EXCHANGE_RATE'')])"
proof (intro conjI impI)
  assume z: "amount z = Some 100 \<and> exchange_rate z = None \<and> status z \<noteq> Some ''FAILED''"
  then show "remittance_alerts [z] = [(transform_remittance z, ''MISSING_EXCHANGE_RATE'')]"
    by (simp add: remittance_alerts_single large_remittance_def)
qed (rule transaction_alerts_single remittance_alerts_single)+

theorem alert_rules_first_match_wins_witness:
  "amount remittance_no_rate = Some 100 \<and> exchange_rate remittance_no_rate = None
   \<and> status remittance_no_rate \<noteq> Some ''FAILED''
   \<and> remittance_alerts [remittance_no_rate]
       = [(transform_remittance remittance_no_rate, ''MISSING_EXCHANGE_RATE'')]"
  using alert_rules_first_match_wins [of x y remittance_no_rate]
  by (simp add: remittance_no_rate_def)

text \<open>
  The claim as stated gives \<^verbatim>\<open>MISSING_EXCHANGE_RATE\<close> to every remittance of amount 100
  without exchange rate, and calls the alerts of the first two rules \<^verbatim>\<open>HIGH_VALUE\<close>
  and \<^verbatim>\<open>FAILED_EVENT\<close>. A remittance of amount 100 without exchange rate whose status
  is \<^verbatim>\<open>FAILED\<close> matches the second rule first: its alert is
  \<^verbatim>\<open>FAILED_REMITTANCE\<close>. A failed transaction gets \<^verbatim>\<open>FAILED_TRANSACTION\<close> and a
  transaction of amount 150000 gets \<^verbatim>\<open>HIGH_VALUE_TRANSACTION\<close>.
\<close>

theorem failed_remittance_without_rate_counterexample:
  "amount failed_remittance_no_rate = Some 100
   \<and> exchange_rate failed_remittance_no_rate = None
   \<and> remittance_alerts [failed_remittance_no_rate]
       = [(transform_remittance failed_remittance_no_rate, ''FAILED_REMITTANCE'')]
   \<and> remittance_alerts [failed_remittance_no_rate]
       \<noteq> [(transform_remittance failed_remittance_no_rate, ''MISSING_EXCHANGE_RATE'')]
   \<and> transaction_alerts [failed_payment ''T1'' 50 (hms 12 3 10)]
       = [(transform_transaction (failed_payment ''T1'' 50 (hms 12 3 10)), ''FAILED_TRANSACTION'')]
   \<and> transaction_alerts [failed_payment ''T1'' 50 (hms 12 3 10)]
       \<noteq> [(transform_transaction (failed_payment ''T1'' 50 (hms 12 3 10)), ''FAILED_EVENT'')]
   \<and> transaction_alerts [payment ''T2'' 150000 (hms 12 3 30)]
       = [(transform_transaction (payment ''T2'' 150000 (hms 12 3 30)), ''HIGH_VALUE_TRANSACTION'')]
   \<and> transaction_alerts [payment ''T2'' 150000 (hms 12 3 30)]
       \<noteq> [(transform_transaction (payment ''T2'' 150000 (hms 12 3 30)), ''HIGH_VALUE'')]"
proof -
  have r: "remittance_alerts [failed_remittance_no_rate]
       = [(transform_remittance failed_remittance_no_rate, ''FAILED_REMITTANCE'')]"
    by (simp add: remittance_alerts_single failed_remittance_no_rate_def large_remittance_def)
  have f: "transaction_alerts [failed_payment ''T1'' 50 (hms 12 3 10)]
       = [(transform_transaction (failed_payment ''T1'' 50 (hms 12 3 10)), ''FAILED_TRANSACTION'')]"
    by (simp add: transaction_alerts_single failed_payment_def high_value_transaction_def)
  have h: "transaction_alerts [payment ''T2'' 150000 (hms 12 3 30)]
       = [(transform_transaction (payment ''T2'' 150000 (hms 12 3 30)), ''HIGH_VALUE_TRANSACTION'')]"
    by (simp add: transaction_alerts_single payment_def high_value_transaction_def)
  have a: "amount failed_remittance_no_rate = Some 100"
    "exchange_rate failed_remittance_no_rate = None"
    by (simp_all add: failed_remittance_no_rate_def)
  show ?thesis unfolding r f h using a by simp
qed

text \<open>
  Claim C10. No row of an alert stream carries the fallback alert type \<^verbatim>\<open>OTHER\<close>:
  a row that passes the filter makes one of the disjuncts of the filter true, and that
  disjunct is the condition of one of the \<^verbatim>\<open>when\<close> branches of the alert type.
\<close>

theorem alert_type_other_unreachable:
  "(\<forall>(r, t) \<in> set (create_alert_stream_tx df). t \<noteq> ''OTHER'')
   \<and> (\<forall>(r, t) \<in> set (create_alert_stream_rm df'). t \<noteq> ''OTHER'')"
  by (auto simp: create_alert_stream_tx_def create_alert_stream_rm_def
       alert_filter_tx_def alert_filter_rm_def alert_type_tx_def alert_type_rm_def
       sql_or_True)

theorem alert_type_other_unreachable_witness:
  "(negative_transaction_t, ''NEGATIVE_AMOUNT'') \<in> set (create_alert_stream_tx [negative_transaction_t])
   \<and> (rate_missing_remittance_t, ''MISSING_EXCHANGE_RATE'')
       \<in> set (create_alert_stream_rm [rate_missing_remittance_t])
   \<and> alert_type_tx negative_transaction_t \<noteq> ''OTHER''
   \<and> alert_type_rm rate_missing_remittance_t \<noteq> ''OTHER''"
proof -
  have tx_filter: "alert_filter_tx negative_transaction_t = Some True"
    by (simp add: alert_filter_tx_def sql_eq_def sql_lt_def negative_transaction_t_def)
  have tx_type: "alert_type_tx negative_transaction_t = ''NEGATIVE_AMOUNT''"
    by (simp add: alert_type_tx_def sql_eq_def sql_lt_def negative_transaction_t_def)
  have rm_filter: "alert_filter_rm rate_missing_remittance_t = Some True"
    by (simp add: alert_filter_rm_def sql_eq_def sql_lt_def isNull_def
          rate_missing_remittance_t_def)
  have rm_type: "alert_type_rm rate_missing_remittance_t = ''MISSING_EXCHANGE_RATE''"
    by (simp add: alert_type_rm_def sql_eq_def sql_lt_def isNull_def
          rate_missing_remittance_t_def)
  have tx_in: "(negative_transaction_t, ''NEGATIVE_AMOUNT'')
                 \<in> set (create_alert_stream_tx [negative_transaction_t])"
    by (simp add: create_alert_stream_tx_def tx_filter tx_type)
  have rm_in: "(rate_missing_remittance_t, ''MISSING_EXCHANGE_RATE'')
                 \<in> set (create_alert_stream_rm [rate_missing_remittance_t])"
    by (simp add: create_alert_stream_rm_def rm_filter rm_type)
  from alert_type_other_unreachable [of "[negative_transaction_t]" "[rate_missing_remittance_t]"]
    tx_in rm_in
  have "''NEGATIVE_AMOUNT'' \<noteq> ''OTHER'' \<and> ''MISSING_EXCHANGE_RATE'' \<noteq> ''OTHER''"
    by blast
  with tx_in rm_in tx_type rm_type show ?thesis by simp
qed

section \<open>Window assignment\<close>

lemma floor_mod_fix:
  "0 < S \<Longrightarrow> (if ts smod S < 0 then ts smod S + S else ts smod S) = ts mod (S::int)"
proof (cases "0 \<le> ts")
  case True
  assume "0 < S"
  then have "0 \<le> ts mod S" by simp
  with True \<open>0 < S\<close> show ?thesis
    by (auto simp: signed_modulo_int_def sgn_if not_less)
next
  case False
  assume S: "0 < S"
  from False have neg: "ts < 0" by simp
  have m: "ts mod S = (if (- ts) mod S = 0 then 0 else S - (- ts) mod S)"
    using zmod_zminus1_eq_if [of "- ts" S] by simp
  have nonneg: "0 \<le> (- ts) mod S" using S by simp
  have sm: "ts smod S = - ((- ts) mod S)"
    using neg S by (simp add: signed_modulo_int_def sgn_if)
  show ?thesis
  proof (cases "(- ts) mod S = 0")
    case True
    with sm m show ?thesis by simp
  next
    case False
    with nonneg have "0 < (- ts) mod S" by linarith
    with sm m False show ?thesis by simp
  qed
qed

lemma last_start_mod: "0 < S \<Longrightarrow> last_start ts S = ts - ts mod S"
  using floor_mod_fix [of S ts] by (simp add: last_start_def Let_def)

lemma max_num_overlapping_dvd:
  assumes "0 < S" "S dvd L"
  shows "max_num_overlapping L S = nat (L div S)"
proof -
  from assms obtain k where k: "L = S * k" by (auto simp: dvd_def)
  with assms(1) have "real_of_int L / real_of_int S = real_of_int k" by simp
  then have "\<lceil>real_of_int L / real_of_int S\<rceil> = k" by simp
  moreover from k assms(1) have "L div S = k" by simp
  ultimately show ?thesis by (simp add: max_num_overlapping_def)
qed

lemma candidate_contains:
  assumes S: "0 < S" and d: "S dvd L" and i: "i < nat (L div S)"
  shows "ts - ts mod S - int i * S \<le> ts \<and> ts < ts - ts mod S - int i * S + L"
proof -
  from d obtain k where k: "L = S * k" by (auto simp: dvd_def)
  with S have kd: "L div S = k" by simp
  with i have ik: "int i + 1 \<le> k" by linarith
  have "0 \<le> ts mod S" "ts mod S < S" using S by simp_all
  moreover have "0 \<le> int i * S" using S by simp
  moreover have "(int i + 1) * S \<le> k * S" using ik S by (intro mult_right_mono) simp_all
  then have "int i * S + S \<le> L" using k by (simp add: algebra_simps)
  ultimately show ?thesis by linarith
qed

lemma window_starts_all:
  assumes S: "0 < S" and d: "S dvd L"
  shows "window_starts ts L S = map (\<lambda>i. ts - ts mod S - int i * S) [0..<nat (L div S)]"
proof -
  have "\<forall>s \<in> set (map (\<lambda>i. ts - ts mod S - int i * S) [0..<nat (L div S)]). s \<le> ts \<and> ts < s + L"
    using candidate_contains [OF S d] by auto
  then show ?thesis
    by (simp only: window_starts_def last_start_mod [OF S] max_num_overlapping_dvd [OF S d] filter_True)
qed

lemma window_starts_set:
  assumes S: "0 < S" and d: "S dvd L"
  shows "set (window_starts ts L S) = {s. S dvd s \<and> s \<le> ts \<and> ts < s + L}"
proof (intro set_eqI iffI)
  fix s assume "s \<in> set (window_starts ts L S)"
  then obtain i where i: "i < nat (L div S)" and s: "s = ts - ts mod S - int i * S"
    by (auto simp: window_starts_all [OF S d])
  have "S dvd ts - ts mod S" by (simp add: minus_mod_eq_mult_div)
  then have "S dvd s" unfolding s by (simp add: dvd_diff)
  with candidate_contains [OF S d i, of ts] s show "s \<in> {s. S dvd s \<and> s \<le> ts \<and> ts < s + L}"
    by simp
next
  fix s assume "s \<in> {s. S dvd s \<and> s \<le> ts \<and> ts < s + L}"
  then have sd: "S dvd s" and le: "s \<le> ts" and lt: "ts < s + L" by simp_all
  from d obtain k where k: "L = S * k" by (auto simp: dvd_def)
  with S have kd: "L div S = k" by simp
  from sd obtain q where q: "s = S * q" by (auto simp: dvd_def)
  have b: "ts - ts mod S = S * (ts div S)" by (simp add: minus_mod_eq_mult_div)
  have "q \<le> ts div S" using le q S by (metis mult.commute zdiv_mono1 nonzero_mult_div_cancel_left less_irrefl)
  define j where "j = ts div S - q"
  have j0: "0 \<le> j" using \<open>q \<le> ts div S\<close> by (simp add: j_def)
  have "S * (ts div S) \<le> ts" using S by (metis b diff_le_self pos_mod_sign diff_ge_0_iff_ge add.commute add_diff_cancel_left' le_add_same_cancel1 mult_div_mod_eq)
  with lt q k have "S * (ts div S) < S * q + S * k" by linarith
  then have "S * (ts div S - q) < S * k" by (simp add: algebra_simps)
  with S have "j < k" unfolding j_def by (simp add: mult_less_cancel_left_pos)
  with j0 kd have "nat j < nat (L div S)" by simp
  then have "nat j \<in> set [0..<nat (L div S)]" by simp
  moreover have "s = ts - ts mod S - int (nat j) * S"
    using j0 by (simp add: b q j_def algebra_simps)
  ultimately have "s \<in> (\<lambda>i. ts - ts mod S - int i * S) ` set [0..<nat (L div S)]"
    by (rule rev_image_eqI)
  then show "s \<in> set (window_starts ts L S)"
    by (simp only: window_starts_all [OF S d] set_map)
qed

lemma window_starts_distinct:
  assumes S: "0 < S" and d: "S dvd L"
  shows "distinct (window_starts ts L S)"
  using S by (auto simp: window_starts_all [OF S d] distinct_map inj_on_def)

lemma window_starts_length:
  assumes S: "0 < S" and d: "S dvd L"
  shows "length (window_starts ts L S) = nat \<lceil>real_of_int L / real_of_int S\<rceil>"
  using max_num_overlapping_dvd [OF S d]
  by (simp add: window_starts_all [OF S d] max_num_overlapping_def)

lemma window_starts_example: "window_starts (hms 12 3 30) (5 * minute) minute = [hms 12 3 0, hms 12 2 0, hms 12 1 0, hms 12 0 0, hms 11 59 0]"
  by (simp add: window_starts_def max_num_overlapping_def last_start_mod minute_def hms_def upt_rec [of _ "numeral _"] upt_rec [of _ "Suc _"])

lemma window_five_minutes:
  "window (Some ts) (5 * minute) minute =
     map (\<lambda>i. (ts - ts mod minute - int i * minute, ts - ts mod minute - int i * minute + 5 * minute))
       [0..<5]"
proof -
  have "window_starts ts (5 * minute) minute =
          map (\<lambda>i. ts - ts mod minute - int i * minute) [0..<nat (5 * minute div minute)]"
    by (rule window_starts_all) (simp_all add: minute_def)
  moreover have "nat (5 * minute div minute) = 5" by (simp add: minute_def)
  ultimately show ?thesis by (simp add: window_def comp_def)
qed

text \<open>
  Claim C4, amended. When the slide \<open>S\<close> is positive and divides the window length
  \<open>L\<close>, a timestamp is assigned exactly the windows \<open>[s, s + L)\<close> that contain it and whose
  start \<open>s\<close> is a multiple of \<open>S\<close>; they are pairwise different and there are
  \<open>\<lceil>L / S\<rceil>\<close> of them. With five-minute windows sliding by one minute, an event at
  12:03:30 belongs to the five windows that start at 11:59, 12:00, 12:01, 12:02 and 12:03.
\<close>

theorem window_assignment:
  "(0 < S \<and> S dvd L \<longrightarrow>
      set (window_starts ts L S) = {s. S dvd s \<and> s \<le> ts \<and> ts < s + L}
      \<and> distinct (window_starts ts L S)
      \<and> length (window_starts ts L S) = nat \<lceil>real_of_int L / real_of_int S\<rceil>)
   \<and> window_starts (hms 12 3 30) (5 * minute) minute
       = [hms 12 3 0, hms 12 2 0, hms 12 1 0, hms 12 0 0, hms 11 59 0]"
proof (intro conjI impI)
  assume "0 < S \<and> S dvd L"
  then have S: "0 < S" and d: "S dvd L" by simp_all
  show "set (window_starts ts L S) = {s. S dvd s \<and> s \<le> ts \<and> ts < s + L}"
    by (rule window_starts_set [OF S d])
  show "distinct (window_starts ts L S)" by (rule window_starts_distinct [OF S d])
  show "length (window_starts ts L S) = nat \<lceil>real_of_int L / real_of_int S\<rceil>"
    by (rule window_starts_length [OF S d])
next
  show "window_starts (hms 12 3 30) (5 * minute) minute
       = [hms 12 3 0, hms 12 2 0, hms 12 1 0, hms 12 0 0, hms 11 59 0]"
    by (rule window_starts_example)
qed

theorem window_assignment_witness:
  "0 < minute \<and> minute dvd 5 * minute
   \<and> set (window_starts (hms 12 3 30) (5 * minute) minute)
       = {s. minute dvd s \<and> s \<le> hms 12 3 30 \<and> hms 12 3 30 < s + 5 * minute}
   \<and> distinct (window_starts (hms 12 3 30) (5 * minute) minute)
   \<and> length (window_starts (hms 12 3 30) (5 * minute) minute) = 5"
proof -
  have h: "0 < minute \<and> minute dvd 5 * minute" by (simp add: minute_def)
  have n: "nat \<lceil>real_of_int (5 * minute) / real_of_int minute\<rceil> = 5" by (simp add: minute_def)
  from h window_assignment [of minute "5 * minute" "hms 12 3 30"]
  have r: "set (window_starts (hms 12 3 30) (5 * minute) minute)
       = {s. minute dvd s \<and> s \<le> hms 12 3 30 \<and> hms 12 3 30 < s + 5 * minute}
   \<and> distinct (window_starts (hms 12 3 30) (5 * minute) minute)
   \<and> length (window_starts (hms 12 3 30) (5 * minute) minute)
       = nat \<lceil>real_of_int (5 * minute) / real_of_int minute\<rceil>"
    by blast
  from r n have "length (window_starts (hms 12 3 30) (5 * minute) minute) = 5"
    by (simp only:)
  with h r show ?thesis by blast
qed

text \<open>
  The claim as stated lists four windows for 12:03:30. The window that starts at 11:59 ends
  at 12:04, so it contains 12:03:30 as well and is assigned too.
\<close>

theorem window_assignment_four_windows_counterexample:
  "hms 11 59 0 \<in> set (window_starts (hms 12 3 30) (5 * minute) minute)
   \<and> hms 11 59 0 \<le> hms 12 3 30 \<and> hms 12 3 30 < hms 11 59 0 + 5 * minute
   \<and> set (window_starts (hms 12 3 30) (5 * minute) minute)
       \<noteq> {hms 12 0 0, hms 12 1 0, hms 12 2 0, hms 12 3 0}"
proof -
  have "hms 11 59 0 \<notin> {hms 12 0 0, hms 12 1 0, hms 12 2 0, hms 12 3 0}"
    by (simp add: hms_def)
  moreover have "hms 11 59 0 \<in> set (window_starts (hms 12 3 30) (5 * minute) minute)"
    by (simp add: window_starts_example)
  moreover have "hms 11 59 0 \<le> hms 12 3 30 \<and> hms 12 3 30 < hms 11 59 0 + 5 * minute"
    by (simp add: hms_def minute_def)
  ultimately show ?thesis by metis
qed

section \<open>Rounding\<close>

lemma round_half_even_int: "round_half_even (of_int j) = j"
  by (simp add: round_half_even_def)

lemma exponent_eq:
  assumes "2 ^ n \<le> \<bar>x\<bar>" and "\<bar>x\<bar> < 2 ^ Suc n"
  shows "exponent x = int n"
proof -
  have p: "0 < \<bar>x\<bar>" using assms(1) by (smt (verit) zero_less_power)
  have "\<lfloor>log 2 \<bar>x\<bar>\<rfloor> = int n"
    using assms by (subst floor_log_eq_powr_iff [OF p]) (simp_all add: powr_realpow powr_add)
  then show ?thesis by (simp add: exponent_def)
qed


lemma binade_ex:
  fixes a :: int
  assumes "1 \<le> a"
  shows "\<exists>n. 2 ^ n \<le> a \<and> a < 2 ^ Suc n"
proof -
  from assms have "1 \<le> nat a" by simp
  from ex_power_ivl1 [of 2 "nat a", OF _ this] obtain n where
    "2 ^ n \<le> nat a" "nat a < 2 ^ (n + 1)" by auto
  then have "2 ^ n \<le> a \<and> a < 2 ^ Suc n"
    using assms by (simp add: le_nat_iff nat_less_iff)
  then show ?thesis ..
qed

text \<open>A whole number of magnitude at most \<open>2^53\<close> is a double.\<close>

lemma round_double_int:
  assumes "\<bar>n\<bar> \<le> 2 ^ 53"
  shows "round_double (of_int n) = Finite (of_int n)"
proof (cases "n = 0")
  case True
  then show ?thesis by (simp add: round_double_def)
next
  case False
  then have "1 \<le> \<bar>n\<bar>" by simp
  from binade_ex [OF this] obtain e where e: "2 ^ e \<le> \<bar>n\<bar>" "\<bar>n\<bar> < 2 ^ Suc e" by blast
  have re: "(2::real) ^ e \<le> \<bar>of_int n\<bar>" "\<bar>of_int n :: real\<bar> < 2 ^ Suc e"
  proof -
    from e(1) have "real_of_int (2 ^ e) \<le> real_of_int \<bar>n\<bar>" by (rule of_int_le_iff [THEN iffD2])
    then show "(2::real) ^ e \<le> \<bar>of_int n\<bar>" by simp
    from e(2) have "real_of_int \<bar>n\<bar> < real_of_int (2 ^ Suc e)" by (rule of_int_less_iff [THEN iffD2])
    then show "\<bar>of_int n :: real\<bar> < 2 ^ Suc e" by simp
  qed
  have ex: "exponent (of_int n) = int e" by (rule exponent_eq [OF re])
  from e(1) assms have "(2::int) ^ e \<le> 2 ^ 53" by simp
  have e53: "e \<le> 53"
  proof (rule power_le_imp_le_exp)
    show "(1::int) < 2" by simp
    show "(2::int) ^ e \<le> 2 ^ 53" by fact
  qed
  obtain j :: int where j: "real_of_int n = of_int j * pow2 (int e - 52)"
  proof (cases "e \<le> 52")
    case True
    then have "pow2 (int e - 52) = 1 / 2 ^ (52 - e)"
      by (simp add: pow2_def nat_diff_distrib')
    then have "real_of_int n = of_int (n * 2 ^ (52 - e)) * pow2 (int e - 52)" by simp
    then show ?thesis by (rule that)
  next
    case False
    with e53 have e': "e = 53" by simp
    with e assms have "\<bar>n\<bar> = 2 ^ 53" by simp
    then have "2 dvd \<bar>n\<bar>" by simp
    then have "2 dvd n" by (simp only: dvd_abs_iff)
    then have "n = 2 * (n div 2)" by simp
    then have "real_of_int n = real_of_int (2 * (n div 2))" by simp
    then have "real_of_int n = of_int (n div 2) * pow2 (int e - 52)"
      by (simp add: e' pow2_def)
    then show ?thesis by (rule that)
  qed
  have pos: "0 < pow2 (int e - 52)" by (simp add: pow2_def)
  have q: "real_of_int n / pow2 (int e - 52) = of_int j" using j pos by simp
  have b: "\<bar>real_of_int n\<bar> \<le> 2 ^ 53"
  proof -
    from assms have "real_of_int \<bar>n\<bar> \<le> real_of_int (2 ^ 53)" by (rule of_int_le_iff [THEN iffD2])
    then show ?thesis by simp
  qed
  have "(2::real) ^ 53 < 2 ^ 1024" by simp
  with b have lim: "\<not> 2 ^ 1024 \<le> real_of_int n" "\<not> real_of_int n \<le> - (2 ^ 1024)" by linarith+
  from False have nz: "real_of_int n \<noteq> 0" by simp
  show ?thesis
    unfolding round_double_def Let_def ex q round_half_even_int j [symmetric]
    using nz lim by simp
qed

section \<open>The aggregate of a group under permutation\<close>


















lemma analytics_group_amounts:
  "create_real_time_analytics_tx df k =
     (if group_amounts df k = [] then None else Some (fold agg_update (group_amounts df k) agg_init))"
  by (simp add: create_real_time_analytics_tx_def group_amounts_def Let_def)



section \<open>The scenario with three amounts\<close>

lemma transaction_alerts_Cons:
  "transaction_alerts (x # xs) = transaction_alerts [x] @ transaction_alerts xs"
  by (simp add: transaction_alerts_def apply_streaming_transformations_tx_def
        create_alert_stream_tx_def)

lemma tx_group_keys_transform:
  "tx_group_keys (transform_transaction x) =
     map (\<lambda>w. (w, map_option (upper \<circ> trim) (country_code x),
                   map_option (upper \<circ> trim) (transaction_type x)))
       (window (transaction_date x) (5 * minute) minute)"
  by (simp add: tx_group_keys_def transform_transaction_def)

lemma three_amounts_fold:
  "fold agg_update [Some 50, Some 150000, Some (- 20)] agg_init
     = \<lparr> transaction_count = 3, total_amount = Some (Finite 150030),
         max_amount = Some 150000, min_amount = Some (- 20) \<rparr>"
proof -
  have r1: "round_double 150050 = Finite 150050"
    using round_double_int [of 150050] by simp
  have r2: "round_double 150030 = Finite 150030"
    using round_double_int [of 150030] by simp
  show ?thesis
    by (simp add: agg_update_def agg_init_def merge_value_def sum_update_def r1 r2)
qed

lemma three_amounts_aggregate:
  assumes amounts: "amount x1 = Some 50" "amount x2 = Some 150000" "amount x3 = Some (- 20)"
    and country: "country_code x2 = country_code x1" "country_code x3 = country_code x1"
    and type: "transaction_type x2 = transaction_type x1" "transaction_type x3 = transaction_type x1"
    and one_window: "w \<in> set (window (transaction_date x1) (5 * minute) minute)"
      "w \<in> set (window (transaction_date x2) (5 * minute) minute)"
      "w \<in> set (window (transaction_date x3) (5 * minute) minute)"
  shows "transaction_analytics [x1, x2, x3]
           (w, map_option (upper \<circ> trim) (country_code x1),
               map_option (upper \<circ> trim) (transaction_type x1))
         = Some \<lparr> transaction_count = 3, total_amount = Some (Finite 150030),
                  max_amount = Some 150000, min_amount = Some (- 20) \<rparr>"
proof -
  let ?k = "(w, map_option (upper \<circ> trim) (country_code x1),
               map_option (upper \<circ> trim) (transaction_type x1))"
  have k: "?k \<in> set (tx_group_keys (transform_transaction x1))"
    "?k \<in> set (tx_group_keys (transform_transaction x2))"
    "?k \<in> set (tx_group_keys (transform_transaction x3))"
    using one_window country type by (simp_all add: tx_group_keys_transform)
  have "create_real_time_analytics_tx
          [transform_transaction x1, transform_transaction x2, transform_transaction x3] ?k
        = Some (fold agg_update [Some 50, Some 150000, Some (- 20)] agg_init)"
    using k amounts
    by (simp add: create_real_time_analytics_tx_def transform_transaction_keeps)
  then show ?thesis
    by (simp only: transaction_analytics_def apply_streaming_transformations_tx_def list.map
          three_amounts_fold)
qed

lemma noon_window:
  "(hms 12 0 0, hms 12 5 0) \<in> set (window (Some (hms 12 3 10)) (5 * minute) minute)"
  "(hms 12 0 0, hms 12 5 0) \<in> set (window (Some (hms 12 3 30)) (5 * minute) minute)"
  "(hms 12 0 0, hms 12 5 0) \<in> set (window (Some (hms 12 3 50)) (5 * minute) minute)"
  by (simp_all only: window_five_minutes)
     (simp_all add: upt_rec [of _ "numeral _"] upt_rec [of _ "Suc _"] hms_def minute_def)

lemma upper_trim_examples:
  "upper (trim ''hn'') = ''HN''" "upper (trim ''Payment'') = ''PAYMENT''"
  "upper (trim ''HN'') = ''HN''" "upper (trim ''PAYMENT'') = ''PAYMENT''"
  by code_simp+

text \<open>
  Claim C6, amended. Three transactions with the amounts 50, 150000 and -20, the same country
  code and transaction type, and a window \<open>w\<close> that contains all three timestamps, none of
  them with the status \<^verbatim>\<open>FAILED\<close>: the aggregate of \<open>w\<close> for that key has count 3, sum
  150030, minimum -20 and maximum 150000, and the alert stream holds exactly two alerts,
  \<^verbatim>\<open>HIGH_VALUE_TRANSACTION\<close> for 150000 and \<^verbatim>\<open>NEGATIVE_AMOUNT\<close> for -20.
\<close>

theorem scenario_three_amounts:
  assumes amounts: "amount x1 = Some 50" "amount x2 = Some 150000" "amount x3 = Some (- 20)"
    and country: "country_code x2 = country_code x1" "country_code x3 = country_code x1"
    and type: "transaction_type x2 = transaction_type x1" "transaction_type x3 = transaction_type x1"
    and one_window: "w \<in> set (window (transaction_date x1) (5 * minute) minute)"
      "w \<in> set (window (transaction_date x2) (5 * minute) minute)"
      "w \<in> set (window (transaction_date x3) (5 * minute) minute)"
    and not_failed: "status x1 \<noteq> Some ''FAILED''" "status x2 \<noteq> Some ''FAILED''"
      "status x3 \<noteq> Some ''FAILED''"
  shows "transaction_analytics [x1, x2, x3]
           (w, map_option (upper \<circ> trim) (country_code x1),
               map_option (upper \<circ> trim) (transaction_type x1))
         = Some \<lparr> transaction_count = 3, total_amount = Some (Finite 150030),
                  max_amount = Some 150000, min_amount = Some (- 20) \<rparr>
       \<and> transaction_alerts [x1, x2, x3]
         = [(transform_transaction x2, ''HIGH_VALUE_TRANSACTION''),
            (transform_transaction x3, ''NEGATIVE_AMOUNT'')]"
proof
  show "transaction_analytics [x1, x2, x3]
           (w, map_option (upper \<circ> trim) (country_code x1),
               map_option (upper \<circ> trim) (transaction_type x1))
         = Some \<lparr> transaction_count = 3, total_amount = Some (Finite 150030),
                  max_amount = Some 150000, min_amount = Some (- 20) \<rparr>"
    using amounts country type one_window by (rule three_amounts_aggregate)
  have a1: "transaction_alerts [x1] = []"
    using amounts(1) not_failed(1)
    by (simp add: transaction_alerts_single high_value_transaction_def)
  have a2: "transaction_alerts [x2] = [(transform_transaction x2, ''HIGH_VALUE_TRANSACTION'')]"
    using amounts(2) by (simp add: transaction_alerts_single high_value_transaction_def)
  have a3: "transaction_alerts [x3] = [(transform_transaction x3, ''NEGATIVE_AMOUNT'')]"
    using amounts(3) not_failed(3)
    by (simp add: transaction_alerts_single high_value_transaction_def)
  show "transaction_alerts [x1, x2, x3]
         = [(transform_transaction x2, ''HIGH_VALUE_TRANSACTION''),
            (transform_transaction x3, ''NEGATIVE_AMOUNT'')]"
    using transaction_alerts_Cons [of x1 "[x2, x3]"] transaction_alerts_Cons [of x2 "[x3]"]
    by (simp add: a1 a2 a3)
qed

theorem scenario_three_amounts_witness:
  "transaction_analytics
      [payment ''T1'' 50 (hms 12 3 10), payment ''T2'' 150000 (hms 12 3 30),
       payment ''T3'' (- 20) (hms 12 3 50)]
      ((hms 12 0 0, hms 12 5 0), Some ''HN'', Some ''PAYMENT'')
     = Some \<lparr> transaction_count = 3, total_amount = Some (Finite 150030),
              max_amount = Some 150000, min_amount = Some (- 20) \<rparr>
   \<and> transaction_alerts
      [payment ''T1'' 50 (hms 12 3 10), payment ''T2'' 150000 (hms 12 3 30),
       payment ''T3'' (- 20) (hms 12 3 50)]
     = [(transform_transaction (payment ''T2'' 150000 (hms 12 3 30)), ''HIGH_VALUE_TRANSACTION''),
        (transform_transaction (payment ''T3'' (- 20) (hms 12 3 50)), ''NEGATIVE_AMOUNT'')]"
  using scenario_three_amounts [of "payment ''T1'' 50 (hms 12 3 10)" "payment ''T2'' 150000 (hms 12 3 30)"
                "payment ''T3'' (- 20) (hms 12 3 50)" "(hms 12 0 0, hms 12 5 0)"]
    noon_window
  by (simp add: payment_def upper_trim_examples)

text \<open>
  The claim as stated names no status and calls the alert of the 150000 event
  \<^verbatim>\<open>HIGH_VALUE\<close>. When the event of amount 50 has the status \<^verbatim>\<open>FAILED\<close>, the three
  events are still in one window of one key, with the aggregate of the claim, and the alert
  stream holds three alerts: the event of amount 50 gets \<^verbatim>\<open>FAILED_TRANSACTION\<close>. The
  alert of the 150000 event is \<^verbatim>\<open>HIGH_VALUE_TRANSACTION\<close>.
\<close>

theorem failed_event_of_amount_50_counterexample:
  "amount (failed_payment ''T1'' 50 (hms 12 3 10)) = Some 50
   \<and> transaction_analytics
      [failed_payment ''T1'' 50 (hms 12 3 10), payment ''T2'' 150000 (hms 12 3 30),
       payment ''T3'' (- 20) (hms 12 3 50)]
      ((hms 12 0 0, hms 12 5 0), Some ''HN'', Some ''PAYMENT'')
     = Some \<lparr> transaction_count = 3, total_amount = Some (Finite 150030),
              max_amount = Some 150000, min_amount = Some (- 20) \<rparr>
   \<and> transaction_alerts
      [failed_payment ''T1'' 50 (hms 12 3 10), payment ''T2'' 150000 (hms 12 3 30),
       payment ''T3'' (- 20) (hms 12 3 50)]
     = [(transform_transaction (failed_payment ''T1'' 50 (hms 12 3 10)), ''FAILED_TRANSACTION''),
        (transform_transaction (payment ''T2'' 150000 (hms 12 3 30)), ''HIGH_VALUE_TRANSACTION''),
        (transform_transaction (payment ''T3'' (- 20) (hms 12 3 50)), ''NEGATIVE_AMOUNT'')]
   \<and> length (transaction_alerts
      [failed_payment ''T1'' 50 (hms 12 3 10), payment ''T2'' 150000 (hms 12 3 30),
       payment ''T3'' (- 20) (hms 12 3 50)]) = 3
   \<and> ''HIGH_VALUE_TRANSACTION'' \<noteq> ''HIGH_VALUE''"
proof -
  let ?x1 = "failed_payment ''T1'' 50 (hms 12 3 10)"
  let ?x2 = "payment ''T2'' 150000 (hms 12 3 30)"
  let ?x3 = "payment ''T3'' (- 20) (hms 12 3 50)"
  have g: "transaction_analytics [?x1, ?x2, ?x3]
      ((hms 12 0 0, hms 12 5 0), Some ''HN'', Some ''PAYMENT'')
     = Some \<lparr> transaction_count = 3, total_amount = Some (Finite 150030),
              max_amount = Some 150000, min_amount = Some (- 20) \<rparr>"
    using three_amounts_aggregate [of ?x1 ?x2 ?x3 "(hms 12 0 0, hms 12 5 0)"] noon_window
    by (simp add: payment_def failed_payment_def upper_trim_examples)
  have a1: "transaction_alerts [?x1] = [(transform_transaction ?x1, ''FAILED_TRANSACTION'')]"
    by (simp add: transaction_alerts_single failed_payment_def high_value_transaction_def)
  have a2: "transaction_alerts [?x2] = [(transform_transaction ?x2, ''HIGH_VALUE_TRANSACTION'')]"
    by (simp add: transaction_alerts_single payment_def high_value_transaction_def)
  have a3: "transaction_alerts [?x3] = [(transform_transaction ?x3, ''NEGATIVE_AMOUNT'')]"
    by (simp add: transaction_alerts_single payment_def high_value_transaction_def)
  have a: "transaction_alerts [?x1, ?x2, ?x3]
     = [(transform_transaction ?x1, ''FAILED_TRANSACTION''),
        (transform_transaction ?x2, ''HIGH_VALUE_TRANSACTION''),
        (transform_transaction ?x3, ''NEGATIVE_AMOUNT'')]"
    using transaction_alerts_Cons [of ?x1 "[?x2, ?x3]"] transaction_alerts_Cons [of ?x2 "[?x3]"]
    by (simp only: a1 a2 a3 append.simps)
  have f: "amount ?x1 = Some 50" by (simp add: failed_payment_def)
  show ?thesis unfolding a g using f by simp
qed

section \<open>Normalisation of the code columns\<close>

lemma same_letter_upper: "same_letter c d \<Longrightarrow> upper_char c = upper_char d"
proof -
  assume "same_letter c d"
  then consider "(of_char c :: nat) = of_char d"
    | "65 \<le> (of_char c :: nat)" "(of_char c :: nat) \<le> 90" "(of_char d :: nat) = of_char c + 32"
    | "65 \<le> (of_char d :: nat)" "(of_char d :: nat) \<le> 90" "(of_char c :: nat) = of_char d + 32"
    by (auto simp: same_letter_def Let_def)
  then show ?thesis
  proof cases
    case 1
    then have "c = d" using inj_of_char [where 'a = nat] by (auto dest: injD)
    then show ?thesis by simp
  next
    case 2
    then show ?thesis by (simp add: upper_char_def Let_def)
  next
    case 3
    then show ?thesis by (simp add: upper_char_def Let_def)
  qed
qed

lemma same_letter_space: "same_letter c d \<Longrightarrow> (c = CHR '' '') = (d = CHR '' '')"
proof -
  assume a: "same_letter c d"
  have sp: "(x = CHR '' '') = ((of_char x :: nat) = 32)" for x
  proof
    assume "x = CHR '' ''"
    then show "(of_char x :: nat) = 32" by simp
  next
    assume "(of_char x :: nat) = 32"
    then have "(of_char x :: nat) = of_char (CHR '' '')" by simp
    then show "x = CHR '' ''" by (rule injD [OF inj_of_char])
  qed
  from a show ?thesis unfolding sp by (auto simp: same_letter_def Let_def)
qed

lemma ltrim_variant:
  "list_all2 same_letter s t \<Longrightarrow> list_all2 same_letter (ltrim s) (ltrim t)"
  unfolding ltrim_def
  by (induction s t rule: list_all2_induct) (auto dest: same_letter_space)

lemma trim_variant:
  assumes "list_all2 same_letter s t"
  shows "list_all2 same_letter (trim s) (trim t)"
  unfolding trim_def
  by (intro ltrim_variant assms iffD2 [OF list_all2_rev])

lemma upper_variant:
  "list_all2 same_letter s t \<Longrightarrow> upper s = upper t"
  unfolding upper_def
  by (induction s t rule: list_all2_induct) (auto dest: same_letter_upper)

lemma trim_padding:
  assumes p: "list_all is_space p" and q: "list_all is_space q"
  shows "trim (p @ s @ q) = trim s"
proof -
  let ?sp = "\<lambda>c. c = CHR '' ''"
  have p': "\<And>x. x \<in> set p \<Longrightarrow> ?sp x" and q': "\<And>x. x \<in> set (rev q) \<Longrightarrow> ?sp x"
    using p q by (auto simp: list_all_iff is_space_def)
  have l: "ltrim (p @ s @ q) = ltrim (s @ q)"
    unfolding ltrim_def using p' by (rule dropWhile_append2)
  show ?thesis
  proof (cases "\<exists>x \<in> set s. \<not> ?sp x")
    case True
    then obtain x where "x \<in> set s" "\<not> ?sp x" by blast
    then have "ltrim (s @ q) = ltrim s @ q"
      unfolding ltrim_def by (rule dropWhile_append1)
    then have "ltrim (rev (ltrim (p @ s @ q))) = ltrim (rev q @ rev (ltrim s))"
      by (simp add: l)
    also have "\<dots> = ltrim (rev (ltrim s))"
      unfolding ltrim_def using q' by (rule dropWhile_append2)
    finally show ?thesis by (simp add: trim_def)
  next
    case False
    then have "\<And>x. x \<in> set (s @ q) \<Longrightarrow> ?sp x"
      using q' by auto
    then have e: "ltrim (s @ q) = []" "ltrim s = []"
      unfolding ltrim_def by auto
    show ?thesis unfolding trim_def l e by simp
  qed
qed

lemma normalise_variant:
  assumes "code_variant is_space a b"
  shows "upper (trim a) = upper (trim b)"
proof -
  from assms obtain p q p' q' s t where
    a: "a = p @ s @ q" and b: "b = p' @ t @ q'"
    and sp: "list_all is_space p" "list_all is_space q" "list_all is_space p'" "list_all is_space q'"
    and st: "list_all2 same_letter s t"
    by (auto simp: code_variant_def)
  have "trim a = trim s" "trim b = trim t"
    unfolding a b using sp by (simp_all add: trim_padding)
  with trim_variant [OF st] show ?thesis by (simp add: upper_variant)
qed

lemma normalise_variant_option:
  assumes "rel_option (code_variant is_space) a b"
  shows "map_option (upper \<circ> trim) a = map_option (upper \<circ> trim) b"
  using assms by (cases a; cases b) (simp_all add: normalise_variant)

lemma code_variantI:
  assumes "list_all blank p" "list_all blank q" "list_all blank p'" "list_all blank q'"
    and "list_all2 same_letter s t"
  shows "code_variant blank (p @ s @ q) (p' @ t @ q')"
  unfolding code_variant_def using assms by blast

lemma same_letter_refl: "same_letter c c"
  by (simp add: same_letter_def)

lemma code_variant_examples:
  "code_variant is_space '' hn'' ''HN''"
  "code_variant is_space ''Payment '' ''PAYMENT''"
  "code_variant is_space ''agri'' ''  AGRI ''"
  "code_variant is_whitespace ''US'' (''US'' @ [CHR 0x09])"
  "code_variant is_whitespace ''PAYMENT'' ''PAYMENT''"
  "code_variant is_whitespace ''AGRI'' ''AGRI''"
proof -
  have l: "list_all2 same_letter ''hn'' ''HN''" "list_all2 same_letter ''Payment'' ''PAYMENT''"
    "list_all2 same_letter ''agri'' ''AGRI''"
    by (simp_all add: same_letter_def)
  show "code_variant is_space '' hn'' ''HN''"
    using code_variantI [of is_space "'' ''" "[]" "[]" "[]" "''hn''" "''HN''"] l
    by (simp add: is_space_def)
  show "code_variant is_space ''Payment '' ''PAYMENT''"
    using code_variantI [of is_space "[]" "'' ''" "[]" "[]" "''Payment''" "''PAYMENT''"] l
    by (simp add: is_space_def)
  show "code_variant is_space ''agri'' ''  AGRI ''"
    using code_variantI [of is_space "[]" "[]" "''  ''" "'' ''" "''agri''" "''AGRI''"] l
    by (simp add: is_space_def)
  show "code_variant is_whitespace ''US'' (''US'' @ [CHR 0x09])"
    using code_variantI [of is_whitespace "[]" "[]" "[]" "[CHR 0x09]" "''US''" "''US''"]
    by (simp add: is_whitespace_def same_letter_refl)
  show "code_variant is_whitespace ''PAYMENT'' ''PAYMENT''"
    using code_variantI [of is_whitespace "[]" "[]" "[]" "[]" "''PAYMENT''" "''PAYMENT''"]
    by (simp add: same_letter_refl)
  show "code_variant is_whitespace ''AGRI'' ''AGRI''"
    using code_variantI [of is_whitespace "[]" "[]" "[]" "[]" "''AGRI''" "''AGRI''"]
    by (simp add: same_letter_refl)
qed

text \<open>
  Claim C9, amended. Two transactions with the same timestamp, whose country code,
  transaction type and sector differ only by the case of letters and by leading or trailing
  space characters, have the same window keys after normalisation (and the same sector).
\<close>

theorem normalised_codes_same_window_keys:
  assumes "rel_option (code_variant is_space) (country_code x) (country_code y)"
    and "rel_option (code_variant is_space) (transaction_type x) (transaction_type y)"
    and "rel_option (code_variant is_space) (sector x) (sector y)"
    and "transaction_date x = transaction_date y"
  shows "tx_group_keys (transform_transaction x) = tx_group_keys (transform_transaction y)
       \<and> sector (transform_transaction x) = sector (transform_transaction y)"
  using assms
  by (simp add: tx_group_keys_transform normalise_variant_option)
     (simp add: transform_transaction_def normalise_variant_option)

theorem normalised_codes_same_window_keys_witness:
  "rel_option (code_variant is_space) (country_code (coded '' hn'' ''Payment '' ''agri''))
      (country_code (coded ''HN'' ''PAYMENT'' ''  AGRI ''))
   \<and> rel_option (code_variant is_space) (transaction_type (coded '' hn'' ''Payment '' ''agri''))
      (transaction_type (coded ''HN'' ''PAYMENT'' ''  AGRI ''))
   \<and> rel_option (code_variant is_space) (sector (coded '' hn'' ''Payment '' ''agri''))
      (sector (coded ''HN'' ''PAYMENT'' ''  AGRI ''))
   \<and> transaction_date (coded '' hn'' ''Payment '' ''agri'')
       = transaction_date (coded ''HN'' ''PAYMENT'' ''  AGRI '')
   \<and> tx_group_keys (transform_transaction (coded '' hn'' ''Payment '' ''agri''))
       = tx_group_keys (transform_transaction (coded ''HN'' ''PAYMENT'' ''  AGRI ''))
   \<and> sector (transform_transaction (coded '' hn'' ''Payment '' ''agri''))
       = sector (transform_transaction (coded ''HN'' ''PAYMENT'' ''  AGRI ''))"
proof -
  have h: "rel_option (code_variant is_space) (country_code (coded '' hn'' ''Payment '' ''agri''))
      (country_code (coded ''HN'' ''PAYMENT'' ''  AGRI ''))"
    "rel_option (code_variant is_space) (transaction_type (coded '' hn'' ''Payment '' ''agri''))
      (transaction_type (coded ''HN'' ''PAYMENT'' ''  AGRI ''))"
    "rel_option (code_variant is_space) (sector (coded '' hn'' ''Payment '' ''agri''))
      (sector (coded ''HN'' ''PAYMENT'' ''  AGRI ''))"
    "transaction_date (coded '' hn'' ''Payment '' ''agri'')
       = transaction_date (coded ''HN'' ''PAYMENT'' ''  AGRI '')"
    by (simp_all add: coded_def code_variant_examples)
  from h normalised_codes_same_window_keys [OF h] show ?thesis by blast
qed

text \<open>
  The claim as stated speaks of whitespace. \<^verbatim>\<open>trim\<close> strips the space character only:
  a country code followed by a tab keeps the tab, and the two events get different keys.
\<close>

theorem tab_is_not_trimmed_counterexample:
  "rel_option (code_variant is_whitespace) (country_code (coded ''US'' ''PAYMENT'' ''AGRI''))
      (country_code (coded (''US'' @ [CHR 0x09]) ''PAYMENT'' ''AGRI''))
   \<and> rel_option (code_variant is_whitespace) (transaction_type (coded ''US'' ''PAYMENT'' ''AGRI''))
      (transaction_type (coded (''US'' @ [CHR 0x09]) ''PAYMENT'' ''AGRI''))
   \<and> rel_option (code_variant is_whitespace) (sector (coded ''US'' ''PAYMENT'' ''AGRI''))
      (sector (coded (''US'' @ [CHR 0x09]) ''PAYMENT'' ''AGRI''))
   \<and> transaction_date (coded ''US'' ''PAYMENT'' ''AGRI'')
       = transaction_date (coded (''US'' @ [CHR 0x09]) ''PAYMENT'' ''AGRI'')
   \<and> set (tx_group_keys (transform_transaction (coded ''US'' ''PAYMENT'' ''AGRI'')))
       \<noteq> set (tx_group_keys (transform_transaction (coded (''US'' @ [CHR 0x09]) ''PAYMENT'' ''AGRI'')))"
proof -
  let ?a = "coded ''US'' ''PAYMENT'' ''AGRI''"
  let ?b = "coded (''US'' @ [CHR 0x09]) ''PAYMENT'' ''AGRI''"
  have ua: "country_code (transform_transaction ?a) = Some ''US''"
    by (simp add: transform_transaction_def coded_def) code_simp
  have ub: "country_code (transform_transaction ?b) = Some (''US'' @ [CHR 0x09])"
    by (simp add: transform_transaction_def coded_def) code_simp
  have ka: "((hms 12 3 0, hms 12 8 0), country_code (transform_transaction ?a),
              transaction_type (transform_transaction ?a))
            \<in> set (tx_group_keys (transform_transaction ?a))"
    unfolding tx_group_keys_def transform_transaction_keeps
    by (simp only: coded_def event_row.simps window_five_minutes)
       (simp add: upt_rec [of _ "numeral _"] upt_rec [of _ "Suc _"] hms_def minute_def)
  have kb: "\<forall>k \<in> set (tx_group_keys (transform_transaction ?b)).
              fst (snd k) = Some (''US'' @ [CHR 0x09])"
    using ub by (auto simp: tx_group_keys_def)
  have "set (tx_group_keys (transform_transaction ?a))
          \<noteq> set (tx_group_keys (transform_transaction ?b))"
  proof
    assume "set (tx_group_keys (transform_transaction ?a))
          = set (tx_group_keys (transform_transaction ?b))"
    with ka kb have "country_code (transform_transaction ?a) = Some (''US'' @ [CHR 0x09])"
      by fastforce
    with ua show False by simp
  qed
  then show ?thesis using code_variant_examples by (simp add: coded_def)
qed

section \<open>Reading rejects nothing\<close>

lemma from_json_required:
  "(j_amount j = Missing \<or> j_amount j = Unparsable \<longrightarrow> amount (from_json p (Object j)) = None)
   \<and> (j_transaction_date j = Missing \<or> j_transaction_date j = Unparsable
        \<longrightarrow> transaction_date (from_json p (Object j)) = None)
   \<and> (j_transaction_id j = Missing \<or> j_transaction_id j = Unparsable
        \<longrightarrow> transaction_id (from_json p (Object j)) = None)"
  by (auto simp: from_json_def columns_def null_transaction_def column_def)

lemma read_kinesis_stream_length: "length (read_kinesis_stream p stream) = length stream"
  by (simp add: read_kinesis_stream_def)

text \<open>
  A record whose required fields are present and in which no field is unparsable gives the
  row of its values, also when the amount is negative, the sector is unknown or optional
  fields are missing. A record with unparsable fields gives a row too: the NULL row, or the
  row with NULL in their columns.
\<close>

lemma well_formed_record_is_read:
  assumes "j_transaction_id w = Value i" and "j_transaction_date w = Value t"
    and "j_amount w = Value a" and "\<not> bad_record w"
  shows "read_kinesis_stream p [Object w] = [columns w]"
    and "transaction_id (columns w) = Some i" and "transaction_date (columns w) = Some t"
    and "amount (columns w) = Some a" and "sector (columns w) = column (j_sector w)"
  using assms by (simp_all add: read_kinesis_stream_def from_json_def columns_def column_def)

lemma negative_unknown_sector_is_read:
  "read_kinesis_stream p [Object negative_unknown_sector] = [columns negative_unknown_sector]"
  "amount (columns negative_unknown_sector) = Some (- 20)"
  "sector (columns negative_unknown_sector) = Some ''??''"
proof -
  have b: "\<not> bad_record negative_unknown_sector"
    by (simp add: negative_unknown_sector_def bad_record_def bad_def)
  have v: "j_transaction_id negative_unknown_sector = Value ''T8''"
    "j_transaction_date negative_unknown_sector = Value 0"
    "j_amount negative_unknown_sector = Value (- 20)"
    by (simp_all add: negative_unknown_sector_def)
  show "read_kinesis_stream p [Object negative_unknown_sector] = [columns negative_unknown_sector]"
    "amount (columns negative_unknown_sector) = Some (- 20)"
    using well_formed_record_is_read [OF v b] by simp_all
  show "sector (columns negative_unknown_sector) = Some ''??''"
    by (simp add: columns_def column_def negative_unknown_sector_def)
qed

lemma unreadable_date_is_read:
  "read_kinesis_stream False [Object unreadable_date] = [null_transaction]"
  "read_kinesis_stream True [Object unreadable_date] = [columns unreadable_date]"
  "transaction_date (columns unreadable_date) = None"
  "amount (columns unreadable_date) = None"
  by (simp_all add: read_kinesis_stream_def from_json_def columns_def column_def
        unreadable_date_def bad_record_def bad_def)

text \<open>
  Claim C8. The claim has a raw record rejected when a required field is missing. The
  streaming pipeline rejects nothing: \<^verbatim>\<open>read_kinesis_stream\<close> gives one row for every
  record and no later step filters on the required columns, although the schema declares
  them not nullable and the batch pipeline drops such rows. At the record \<open>no_amount\<close>,
  which has every required field but the amount: reading gives one row, with a NULL amount,
  whether or not the engine keeps partial results; the row is counted in the aggregate of
  its windows, whose sum, maximum and minimum are NULL; the quality check of the batch
  pipeline drops the same row.
\<close>

theorem missing_amount_is_not_rejected:
  "j_amount no_amount = Missing
   \<and> read_kinesis_stream True [Object no_amount] = [columns no_amount]
   \<and> read_kinesis_stream False [Object no_amount] = [columns no_amount]
   \<and> amount (columns no_amount) = None
   \<and> transaction_id (columns no_amount) = Some ''T7''
   \<and> transaction_analytics (read_kinesis_stream True [Object no_amount])
        ((0, 5 * minute), Some ''HN'', Some ''PAYMENT'')
       = Some \<lparr> transaction_count = 1, total_amount = None,
                max_amount = None, min_amount = None \<rparr>
   \<and> apply_data_quality_checks_transactional [columns no_amount] = []"
proof -
  have r: "read_kinesis_stream True [Object no_amount] = [columns no_amount]"
    "read_kinesis_stream False [Object no_amount] = [columns no_amount]"
    by (simp_all add: read_kinesis_stream_def from_json_def no_amount_def bad_record_def bad_def)
  have c: "amount (columns no_amount) = None" "transaction_id (columns no_amount) = Some ''T7''"
    "transaction_date (columns no_amount) = Some 0"
    "country_code (columns no_amount) = Some ''HN''"
    "transaction_type (columns no_amount) = Some ''PAYMENT''"
    by (simp_all add: columns_def column_def no_amount_def)
  have w: "(0, 5 * minute) \<in> set (window (Some 0) (5 * minute) minute)"
    by (simp only: window_five_minutes)
       (simp add: upt_rec [of _ "numeral _"] upt_rec [of _ "Suc _"] minute_def)
  have k: "((0, 5 * minute), Some ''HN'', Some ''PAYMENT'')
             \<in> set (tx_group_keys (transform_transaction (columns no_amount)))"
    unfolding tx_group_keys_transform c using w by (simp add: upper_trim_examples)
  have "transaction_analytics [columns no_amount] ((0, 5 * minute), Some ''HN'', Some ''PAYMENT'')
       = Some (fold agg_update [None] agg_init)"
    using k
    by (simp add: transaction_analytics_def apply_streaming_transformations_tx_def
          create_real_time_analytics_tx_def transform_transaction_keeps c)
  also have "fold agg_update [None] agg_init
       = \<lparr> transaction_count = 1, total_amount = None,
                max_amount = None, min_amount = None \<rparr>"
    by (simp add: agg_update_def agg_init_def merge_value_def sum_update_def)
  finally have a: "transaction_analytics [columns no_amount]
        ((0, 5 * minute), Some ''HN'', Some ''PAYMENT'')
       = Some \<lparr> transaction_count = 1, total_amount = None,
                max_amount = None, min_amount = None \<rparr>" .
  have q: "apply_data_quality_checks_transactional [columns no_amount] = []"
    by (simp add: apply_data_quality_checks_transactional_def isNotNull_def c)
  have m: "j_amount no_amount = Missing" by (simp add: no_amount_def)
  show ?thesis unfolding r a q using c m by simp
qed

section \<open>The engine: keys, invariant\<close>

lemma watermark_track: "currentWatermark A s \<le> currentWatermark A (track t s)"
  by (simp add: currentWatermark_def track_def)

lemma keys_upsert: "fst ` set (upsert k x m) = insert k (fst ` set m)"
  by (induction m) auto

lemma distinct_upsert: "distinct (map fst m) \<Longrightarrow> distinct (map fst (upsert k x m))"
  by (induction m) (auto simp: keys_upsert)

lemma keys_fold_upsert:
  "fst ` set (fold (\<lambda>k. upsert k x) ks m) = set ks \<union> fst ` set m"
  by (induction ks arbitrary: m) (auto simp: keys_upsert)

lemma distinct_fold_upsert:
  "distinct (map fst m) \<Longrightarrow> distinct (map fst (fold (\<lambda>k. upsert k x) ks m))"
  by (induction ks arbitrary: m) (simp_all add: distinct_upsert)

lemma keys_filter:
  "fst ` set (filter (\<lambda>p. P (fst p)) m) = {k \<in> fst ` set m. P k}"
  by force

lemma window_contains:
  assumes "k \<in> set (tx_group_keys r)" and "transaction_date r = Some t"
  shows "t < window_end k"
proof -
  from assms obtain w where "w \<in> set (window (Some t) (5 * minute) minute)" and "fst k = w"
    unfolding tx_group_keys_def by force
  then obtain b where "b \<in> set (window_starts t (5 * minute) minute)"
    and "w = (b, b + 5 * minute)"
    unfolding window_def by force
  with \<open>fst k = w\<close> show ?thesis
    by (simp add: window_starts_def window_end_def)
qed

lemma engine_inv_iff:
  "engine_inv A s \<longleftrightarrow> distinct (map fst (accumulator s)) \<and> distinct (map fst (sink s))
     \<and> (\<forall>k \<in> fst ` set (sink s). due A s k)
     \<and> fst ` set (accumulator s) \<inter> fst ` set (sink s) = {}"
  unfolding engine_inv_def list_all_iff set_map by blast

lemma engine_inv_start: "engine_inv A (start t)"
  by (simp add: engine_inv_def start_def)

lemma watermark_accumulate: "currentWatermark A s \<le> currentWatermark A (accumulate A r s)"
  by (cases "transaction_date r")
     (simp_all add: accumulate_def Let_def currentWatermark_def track_def)

lemma sink_accumulate: "sink (accumulate A r s) = sink s"
  by (cases "transaction_date r") (simp_all add: accumulate_def Let_def track_def)

lemma keys_accumulate:
  "fst ` set (accumulator (accumulate A r s))
     \<subseteq> set (tx_group_keys r) \<union> fst ` set (accumulator s)"
proof (cases "transaction_date r")
  case None
  then show ?thesis by (simp add: accumulate_def)
next
  case (Some t)
  show ?thesis
  proof (cases "isLate A (track t s) t")
    case True
    with Some show ?thesis by (simp add: accumulate_def Let_def track_def)
  next
    case False
    with Some have "accumulator (accumulate A r s)
        = fold (\<lambda>k. upsert k (amount r)) (tx_group_keys r) (accumulator s)"
      by (simp add: accumulate_def Let_def track_def)
    then show ?thesis by (simp only: keys_fold_upsert)
  qed
qed

lemma keys_kept_accumulate:
  "fst ` set (accumulator s) \<subseteq> fst ` set (accumulator (accumulate A r s))"
proof (cases "transaction_date r")
  case None
  then show ?thesis by (simp add: accumulate_def)
next
  case (Some t)
  show ?thesis
  proof (cases "isLate A (track t s) t")
    case True
    with Some show ?thesis by (simp add: accumulate_def Let_def track_def)
  next
    case False
    with Some have "accumulator (accumulate A r s)
        = fold (\<lambda>k. upsert k (amount r)) (tx_group_keys r) (accumulator s)"
      by (simp add: accumulate_def Let_def track_def)
    then show ?thesis by (simp only: keys_fold_upsert) blast
  qed
qed

lemma accumulate_late:
  assumes "transaction_date r = Some t" and "isLate A (track t s) t"
  shows "accumulator (accumulate A r s) = accumulator s"
    and "dropped_late (accumulate A r s) = dropped_late s + 1"
  using assms by (simp_all add: accumulate_def Let_def track_def)

lemma due_mono:
  "currentWatermark A s \<le> currentWatermark A s' \<Longrightarrow> due A s k \<Longrightarrow> due A s' k"
  by (simp add: due_def)

lemma engine_inv_accumulate:
  assumes A: "0 \<le> A" and i: "engine_inv A s"
  shows "engine_inv A (accumulate A r s)"
proof (cases "transaction_date r")
  case None
  with i show ?thesis by (simp add: accumulate_def)
next
  case (Some t)
  let ?s = "accumulate A r s"
  from i have da: "distinct (map fst (accumulator s))" and ds: "distinct (map fst (sink s))"
    and du: "\<forall>k \<in> fst ` set (sink s). due A s k"
    and dj: "fst ` set (accumulator s) \<inter> fst ` set (sink s) = {}"
    by (simp_all add: engine_inv_iff)
  have d1: "distinct (map fst (accumulator ?s))"
    using da Some by (simp add: accumulate_def Let_def track_def distinct_fold_upsert)
  have d3: "\<forall>k \<in> fst ` set (sink s). due A ?s k"
    using du due_mono [OF watermark_accumulate [of A s r]] by blast
  have d4: "k \<notin> fst ` set (sink s)" if k: "k \<in> fst ` set (accumulator ?s)" for k
  proof (cases "k \<in> fst ` set (accumulator s)")
    case True
    with dj show ?thesis by blast
  next
    case False
    have fresh: "\<not> isLate A (track t s) t"
    proof
      assume "isLate A (track t s) t"
      from accumulate_late(1) [OF Some this] k False show False by simp
    qed
    from k False keys_accumulate [of A r s] have new: "k \<in> set (tx_group_keys r)" by blast
    from window_contains [OF new Some] have "t < window_end k" .
    with fresh A have "\<not> due A (track t s) k"
      by (simp add: isLate_def due_def)
    with due_mono [OF watermark_track [of A s t]] have "\<not> due A s k" by blast
    with du show ?thesis by blast
  qed
  then have "fst ` set (accumulator ?s) \<inter> fst ` set (sink s) = {}" by blast
  with d1 ds d3 show ?thesis
    unfolding engine_inv_iff sink_accumulate by blast
qed

lemma engine_inv_finalize:
  assumes i: "engine_inv A s"
  shows "engine_inv A (finalize A s)"
proof -
  let ?due = "filter (\<lambda>p. due A s (fst p)) (accumulator s)"
  let ?rest = "filter (\<lambda>p. \<not> due A s (fst p)) (accumulator s)"
  have "currentWatermark A (finalize A s) = currentWatermark A s"
    by (simp add: finalize_def currentWatermark_def)
  then have w: "due A (finalize A s) k = due A s k" for k
    by (simp only: due_def)
  have acc: "accumulator (finalize A s) = ?rest" and snk: "sink (finalize A s) = sink s @ ?due"
    by (simp_all add: finalize_def)
  from i have da: "distinct (map fst (accumulator s))" and ds: "distinct (map fst (sink s))"
    and du: "\<forall>k \<in> fst ` set (sink s). due A s k"
    and dj: "fst ` set (accumulator s) \<inter> fst ` set (sink s) = {}"
    by (simp_all add: engine_inv_iff)
  have k1: "fst ` set ?due = {k \<in> fst ` set (accumulator s). due A s k}"
    by (rule keys_filter)
  have k2: "fst ` set ?rest = {k \<in> fst ` set (accumulator s). \<not> due A s k}"
    by (rule keys_filter)
  have r: "distinct (map fst ?rest)" using da by (rule distinct_map_filter)
  have "distinct (map fst ?due)" using da by (rule distinct_map_filter)
  moreover have "fst ` set (sink s) \<inter> fst ` set ?due = {}" using dj k1 by blast
  ultimately have d: "distinct (map fst (sink s @ ?due))"
    using ds by (simp only: map_append distinct_append set_map)
  have ks: "fst ` set (sink s @ ?due) = fst ` set (sink s) \<union> fst ` set ?due"
    by (simp only: set_append image_Un)
  have u: "\<forall>k \<in> fst ` set (sink s @ ?due). due A s k"
    unfolding ks using du k1 by blast
  have j: "fst ` set ?rest \<inter> fst ` set (sink s @ ?due) = {}"
    unfolding ks k1 k2 using dj by blast
  show ?thesis
    unfolding engine_inv_iff w acc snk using r d u j by - (intro conjI; assumption)
qed

lemma engine_inv_run: "0 \<le> A \<Longrightarrow> engine_inv A s \<Longrightarrow> engine_inv A (run A steps s)"
proof (induction steps arbitrary: s)
  case Nil
  then show ?case by simp
next
  case (Cons st steps)
  then show ?case by (cases st) (simp_all add: engine_inv_accumulate engine_inv_finalize)
qed

lemma known_accumulate: "known s \<subseteq> known (accumulate A r s)"
  unfolding known_def sink_accumulate using keys_kept_accumulate [of s A r] by blast

lemma known_finalize: "known s \<subseteq> known (finalize A s)"
proof -
  let ?due = "filter (\<lambda>p. due A s (fst p)) (accumulator s)"
  let ?rest = "filter (\<lambda>p. \<not> due A s (fst p)) (accumulator s)"
  have acc: "accumulator (finalize A s) = ?rest" and snk: "sink (finalize A s) = sink s @ ?due"
    by (simp_all add: finalize_def)
  have k1: "fst ` set ?due = {k \<in> fst ` set (accumulator s). due A s k}"
    by (rule keys_filter)
  have k2: "fst ` set ?rest = {k \<in> fst ` set (accumulator s). \<not> due A s k}"
    by (rule keys_filter)
  have ks: "fst ` set (sink s @ ?due) = fst ` set (sink s) \<union> fst ` set ?due"
    by (simp only: set_append image_Un)
  show ?thesis unfolding known_def acc snk ks k1 k2 by blast
qed

lemma known_run: "known s \<subseteq> known (run A steps s)"
proof (induction steps arbitrary: s)
  case Nil
  then show ?case by simp
next
  case (Cons st steps)
  show ?case
  proof (cases st)
    case (Event r)
    have "known s \<subseteq> known (accumulate A r s)" by (rule known_accumulate)
    also have "\<dots> \<subseteq> known (run A steps (accumulate A r s))" by (rule Cons)
    finally show ?thesis by (simp add: Event)
  next
    case Finalize
    have "known s \<subseteq> known (finalize A s)" by (rule known_finalize)
    also have "\<dots> \<subseteq> known (run A steps (finalize A s))" by (rule Cons)
    finally show ?thesis by (simp add: Finalize)
  qed
qed

lemma run_append: "run A (xs @ ys) s = run A ys (run A xs s)"
proof (induction xs arbitrary: s)
  case Nil
  then show ?case by simp
next
  case (Cons st xs)
  then show ?case by (cases st) simp_all
qed

lemma max_seen_accumulate:
  "maxEventTimeSeen (accumulate A r s)
     = (case transaction_date r of None \<Rightarrow> maxEventTimeSeen s
        | Some t \<Rightarrow> max (maxEventTimeSeen s) t)"
  by (cases "transaction_date r") (simp_all add: accumulate_def Let_def track_def)

lemma max_seen_finalize: "maxEventTimeSeen (finalize A s) = maxEventTimeSeen s"
  by (simp add: finalize_def)

lemma watermark_finalize: "currentWatermark A (finalize A s) = currentWatermark A s"
  by (simp add: currentWatermark_def max_seen_finalize)

lemma max_seen_fold_track:
  "maxEventTimeSeen (fold track ts s) = Max (insert (maxEventTimeSeen s) (set ts))"
proof (induction ts arbitrary: s)
  case Nil
  then show ?case by simp
next
  case (Cons t ts)
  have "Max (insert (max (maxEventTimeSeen s) t) (set ts))
      = Max (insert (maxEventTimeSeen s) (insert t (set ts)))"
    by (cases "set ts = {}") (simp_all add: max.assoc)
  with Cons show ?case by (simp add: track_def)
qed

text \<open>
  Claim C3. The watermark is the greatest event time seen minus the allowed lateness, and it
  never goes back: not after one more event time, whatever its value, and not after any
  step of an execution.
\<close>

theorem watermark_never_regresses:
  "currentWatermark A (fold track ts s) = Max (insert (maxEventTimeSeen s) (set ts)) - A
   \<and> currentWatermark A s \<le> currentWatermark A (track t s)
   \<and> currentWatermark A (fold track ts s) \<le> currentWatermark A (fold track (ts @ [t]) s)
   \<and> currentWatermark A (run A steps s) \<le> currentWatermark A (run A (steps @ [st]) s)"
proof (intro conjI)
  show "currentWatermark A (fold track ts s) = Max (insert (maxEventTimeSeen s) (set ts)) - A"
    by (simp add: currentWatermark_def max_seen_fold_track)
  show "currentWatermark A s \<le> currentWatermark A (track t s)"
    by (rule watermark_track)
  show "currentWatermark A (fold track ts s) \<le> currentWatermark A (fold track (ts @ [t]) s)"
    using watermark_track [of A "fold track ts s" t] by simp
  show "currentWatermark A (run A steps s) \<le> currentWatermark A (run A (steps @ [st]) s)"
    by (cases st) (simp_all add: run_append watermark_accumulate watermark_finalize)
qed

lemma late_after_track: "isLate A s t \<Longrightarrow> isLate A (track t s) t"
  by (simp add: isLate_def currentWatermark_def track_def)

section \<open>The mapping of the Accumulator and the aggregated frame\<close>

lemma map_of_upsert_same:
  "map_of (upsert k x m) k
     = Some (agg_update x (case map_of m k of None \<Rightarrow> agg_init | Some a \<Rightarrow> a))"
proof (induction m)
  case Nil
  show ?case by simp
next
  case (Cons p m)
  obtain a b where p: "p = (a, b)" by (cases p)
  show ?case using Cons by (simp add: p)
qed

lemma map_of_upsert_other: "k' \<noteq> k \<Longrightarrow> map_of (upsert k x m) k' = map_of m k'"
proof (induction m)
  case Nil
  then show ?case by simp
next
  case (Cons p m)
  obtain a b where p: "p = (a, b)" by (cases p)
  show ?case using Cons by (simp add: p)
qed

lemma map_of_fold_upsert:
  "distinct ks \<Longrightarrow> map_of (fold (\<lambda>k. upsert k x) ks m) k' =
     (if k' \<in> set ks then Some (agg_update x (case map_of m k' of None \<Rightarrow> agg_init | Some a \<Rightarrow> a))
      else map_of m k')"
proof (induction ks arbitrary: m)
  case Nil
  show ?case by simp
next
  case (Cons k ks)
  from Cons.prems have d: "distinct ks" and n: "k \<notin> set ks" by simp_all
  note ih = Cons.IH [OF d, of "upsert k x m"]
  show ?case
  proof (cases "k' = k")
    case True
    with n ih show ?thesis by (simp add: map_of_upsert_same)
  next
    case False
    with ih show ?thesis by (simp add: map_of_upsert_other)
  qed
qed

lemma tx_group_keys_distinct: "distinct (tx_group_keys r)"
proof (cases "transaction_date r")
  case None
  then show ?thesis by (simp add: tx_group_keys_def window_def)
next
  case (Some t)
  have "distinct (window_starts t (5 * minute) minute)"
    by (rule window_starts_distinct) (simp_all add: minute_def)
  then have "distinct (map (\<lambda>s. (s, s + 5 * minute)) (window_starts t (5 * minute) minute))"
    by (simp add: distinct_map inj_on_def)
  then show ?thesis
    by (simp add: tx_group_keys_def window_def Some distinct_map inj_on_def)
qed

lemma accumulate_on_time:
  assumes "case transaction_date r of None \<Rightarrow> True | Some t \<Rightarrow> \<not> isLate A (track t s) t"
  shows "map_of (accumulator (accumulate A r s)) k =
     (if k \<in> set (tx_group_keys r)
      then Some (agg_update (amount r)
                  (case map_of (accumulator s) k of None \<Rightarrow> agg_init | Some a \<Rightarrow> a))
      else map_of (accumulator s) k)"
proof (cases "transaction_date r")
  case None
  then show ?thesis by (simp add: accumulate_def tx_group_keys_def window_def)
next
  case (Some t)
  with assms have "accumulator (accumulate A r s)
        = fold (\<lambda>k. upsert k (amount r)) (tx_group_keys r) (accumulator s)"
    by (simp add: accumulate_def Let_def track_def)
  then show ?thesis by (simp only: map_of_fold_upsert [OF tx_group_keys_distinct])
qed

lemma run_events_Cons: "run A (map Event (r # rs)) s = run A (map Event rs) (accumulate A r s)"
  by simp

lemma accumulator_run_events:
  "none_late A s rs \<Longrightarrow>
   map_of (accumulator (run A (map Event rs) s)) k =
     (if group_amounts rs k = [] then map_of (accumulator s) k
      else Some (fold agg_update (group_amounts rs k)
                  (case map_of (accumulator s) k of None \<Rightarrow> agg_init | Some a \<Rightarrow> a)))"
proof (induction rs arbitrary: s)
  case Nil
  show ?case by (simp add: group_amounts_def)
next
  case (Cons r rs)
  from Cons.prems
  have h: "case transaction_date r of None \<Rightarrow> True | Some t \<Rightarrow> \<not> isLate A (track t s) t"
    and t: "none_late A (accumulate A r s) rs"
    by simp_all
  note ih = Cons.IH [OF t]
  note a = accumulate_on_time [OF h, of k]
  show ?case
  proof (cases "k \<in> set (tx_group_keys r)")
    case True
    then have g: "group_amounts (r # rs) k = amount r # group_amounts rs k"
      by (simp add: group_amounts_def)
    show ?thesis unfolding run_events_Cons ih a g using True by simp
  next
    case False
    then have g: "group_amounts (r # rs) k = group_amounts rs k"
      by (simp add: group_amounts_def)
    show ?thesis unfolding run_events_Cons ih a g using False by simp
  qed
qed

lemma accumulator_frame:
  assumes "none_late A (start m) rs"
  shows "map_of (accumulator (run A (map Event rs) (start m))) k = create_real_time_analytics_tx rs k"
  using accumulator_run_events [OF assms, of k]
  by (simp add: analytics_group_amounts start_def)

lemma sink_run_events: "sink (run A (map Event rs) s) = sink s"
  by (induction rs arbitrary: s) (simp_all add: sink_accumulate)

lemma map_of_filter_key:
  "map_of (filter (\<lambda>p. P (fst p)) m) k = (if P k then map_of m k else None)"
  by (induction m) auto

lemma sink_frame:
  assumes "none_late A (start m) rs"
  shows "map_of (sink (run A (map Event rs @ [Finalize]) (start m))) k =
     (if due A (run A (map Event rs) (start m)) k then create_real_time_analytics_tx rs k else None)"
proof -
  let ?s = "run A (map Event rs) (start m)"
  have "sink ?s = []" by (simp add: sink_run_events start_def)
  then have "sink (finalize A ?s) = filter (\<lambda>p. due A ?s (fst p)) (accumulator ?s)"
    by (simp add: finalize_def)
  then show ?thesis
    by (simp only: run_append run.simps map_of_filter_key accumulator_frame [OF assms])
qed




section \<open>Late events\<close>

lemma accumulate_late_state:
  assumes "0 \<le> A" and "transaction_date r = Some t" and "isLate A s t"
  shows "accumulate A r s = s\<lparr>dropped_late := dropped_late s + 1\<rparr>"
proof -
  from assms(1,3) have "max (maxEventTimeSeen s) t = maxEventTimeSeen s"
    by (simp add: isLate_def currentWatermark_def)
  then have "track t s = s" by (simp add: track_def)
  with assms(2,3) show ?thesis by (simp add: accumulate_def Let_def)
qed

lemma accumulate_count_late:
  "accumulate A r (s\<lparr>dropped_late := dropped_late s + c\<rparr>)
     = (accumulate A r s)\<lparr>dropped_late := dropped_late (accumulate A r s) + c\<rparr>"
  by (cases "transaction_date r")
     (simp_all add: accumulate_def Let_def track_def isLate_def currentWatermark_def)

lemma finalize_count_late:
  "finalize A (s\<lparr>dropped_late := dropped_late s + c\<rparr>)
     = (finalize A s)\<lparr>dropped_late := dropped_late (finalize A s) + c\<rparr>"
  by (simp add: finalize_def due_def currentWatermark_def)

lemma run_count_late:
  "run A steps (s\<lparr>dropped_late := dropped_late s + c\<rparr>)
     = (run A steps s)\<lparr>dropped_late := dropped_late (run A steps s) + c\<rparr>"
proof (induction steps arbitrary: s)
  case Nil
  show ?case by simp
next
  case (Cons st steps)
  show ?case
  proof (cases st)
    case (Event r)
    show ?thesis unfolding Event run.simps accumulate_count_late by (rule Cons)
  next
    case Finalize
    show ?thesis unfolding Finalize run.simps finalize_count_late by (rule Cons)
  qed
qed

lemma open_events_on_time:
  "none_late watermark_delay (start 0)
     [transform_transaction (payment ''T1'' 50 (hms 12 21 0)),
      transform_transaction (payment ''T2'' 75 (hms 12 30 0))]"
  "none_late watermark_delay (start 0)
     [transform_transaction (payment ''T1'' 50 (hms 12 21 0)),
      transform_transaction (payment ''T2'' 75 (hms 12 30 0)),
      transform_transaction (payment ''T4'' 10 (hms 12 45 0))]"
  by (simp_all add: isLate_def currentWatermark_def track_def start_def max_seen_accumulate
        transform_transaction_keeps payment_def hms_def minute_def watermark_delay_def)

lemma open_window:
  "(hms 12 19 0, hms 12 24 0) \<in> set (window (Some (hms 12 21 0)) (5 * minute) minute)"
  "(hms 12 19 0, hms 12 24 0) \<notin> set (window (Some (hms 12 30 0)) (5 * minute) minute)"
  "(hms 12 19 0, hms 12 24 0) \<notin> set (window (Some (hms 12 45 0)) (5 * minute) minute)"
  "(hms 12 19 0, hms 12 24 0) \<in> set (window (Some (hms 12 19 30)) (5 * minute) minute)"
  by (simp_all only: window_five_minutes)
     (simp_all add: upt_rec [of _ "numeral _"] upt_rec [of _ "Suc _"] hms_def minute_def)

lemma open_key_rows:
  "open_key \<in> set (tx_group_keys (transform_transaction (payment ''T1'' 50 (hms 12 21 0))))"
  "open_key \<notin> set (tx_group_keys (transform_transaction (payment ''T2'' 75 (hms 12 30 0))))"
  "open_key \<notin> set (tx_group_keys (transform_transaction (payment ''T4'' 10 (hms 12 45 0))))"
  "open_key \<in> set (tx_group_keys (transform_transaction late_payment))"
  unfolding tx_group_keys_transform open_key_def late_payment_def
  using open_window by (auto simp: payment_def upper_trim_examples)

lemma one_payment_fold:
  "agg_update (Some 50) agg_init
     = \<lparr> transaction_count = 1, total_amount = Some (Finite 50),
         max_amount = Some 50, min_amount = Some 50 \<rparr>"
  by (simp add: agg_update_def agg_init_def merge_value_def sum_update_def)

lemma open_state_max: "maxEventTimeSeen open_state = hms 12 30 0"
  by (simp add: open_state_def max_seen_accumulate transform_transaction_keeps payment_def
        start_def hms_def)

text \<open>
  Claim C7. An event whose event time is below the current watermark leaves the mapping of
  the Accumulator and the Sink as they are, so the aggregate of every window that is not
  yet finalized is what it was, and adds one to the count of dropped late events. When the
  allowed lateness is not negative this lasts: after any further events and finalizer
  passes, the mapping and the Sink are those of the execution without the late event, so no
  aggregate that is finalized later includes it. Its alert is the one the alert rules give
  for its fields, as for an event that is on time.
\<close>

theorem late_event_dropped_and_alerted:
  assumes "transaction_date x = Some t" and "isLate A s t"
  shows "accumulator (fst (process_event A x s)) = accumulator s
       \<and> sink (fst (process_event A x s)) = sink s
       \<and> dropped_late (fst (process_event A x s)) = dropped_late s + 1
       \<and> (0 \<le> A \<longrightarrow>
            accumulator (run A steps (fst (process_event A x s))) = accumulator (run A steps s)
            \<and> sink (run A steps (fst (process_event A x s))) = sink (run A steps s)
            \<and> dropped_late (run A steps (fst (process_event A x s)))
                = dropped_late (run A steps s) + 1)
       \<and> snd (process_event A x s) = transaction_alerts [x]
       \<and> transaction_alerts [x] =
           (if (\<exists>a. amount x = Some a \<and> a > high_value_transaction)
              then [(transform_transaction x, ''HIGH_VALUE_TRANSACTION'')]
            else if status x = Some ''FAILED''
              then [(transform_transaction x, ''FAILED_TRANSACTION'')]
            else if (\<exists>a. amount x = Some a \<and> a < 0)
              then [(transform_transaction x, ''NEGATIVE_AMOUNT'')]
            else [])"
proof -
  have d: "transaction_date (transform_transaction x) = Some t"
    using assms(1) by (simp add: transform_transaction_keeps)
  note l = late_after_track [OF assms(2)]
  have one: "accumulator (fst (process_event A x s)) = accumulator s
       \<and> sink (fst (process_event A x s)) = sink s
       \<and> dropped_late (fst (process_event A x s)) = dropped_late s + 1"
    using accumulate_late [OF d l] by (simp add: process_event_def sink_accumulate)
  have later: "accumulator (run A steps (fst (process_event A x s))) = accumulator (run A steps s)
            \<and> sink (run A steps (fst (process_event A x s))) = sink (run A steps s)
            \<and> dropped_late (run A steps (fst (process_event A x s)))
                = dropped_late (run A steps s) + 1" if A: "0 \<le> A"
  proof -
    have "fst (process_event A x s) = s\<lparr>dropped_late := dropped_late s + 1\<rparr>"
      using accumulate_late_state [OF A d assms(2)] by (simp add: process_event_def)
    then have "run A steps (fst (process_event A x s))
        = (run A steps s)\<lparr>dropped_late := dropped_late (run A steps s) + 1\<rparr>"
      by (simp only: run_count_late)
    then show ?thesis by simp
  qed
  have alerts: "snd (process_event A x s) = transaction_alerts [x]"
    by (simp add: process_event_def)
  from one later alerts transaction_alerts_single [of x] show ?thesis by blast
qed

theorem late_event_dropped_and_alerted_witness:
  "0 \<le> watermark_delay
   \<and> transaction_date late_payment = Some (hms 12 19 30)
   \<and> isLate watermark_delay open_state (hms 12 19 30)
   \<and> open_key \<in> set (tx_group_keys (transform_transaction late_payment))
   \<and> \<not> due watermark_delay open_state open_key
   \<and> map_of (accumulator open_state) open_key
       = Some \<lparr> transaction_count = 1, total_amount = Some (Finite 50),
                max_amount = Some 50, min_amount = Some 50 \<rparr>
   \<and> map_of (accumulator (fst (process_event watermark_delay late_payment open_state))) open_key
       = Some \<lparr> transaction_count = 1, total_amount = Some (Finite 50),
                max_amount = Some 50, min_amount = Some 50 \<rparr>
   \<and> map_of (sink (run watermark_delay closing_steps
                     (fst (process_event watermark_delay late_payment open_state)))) open_key
       = Some \<lparr> transaction_count = 1, total_amount = Some (Finite 50),
                max_amount = Some 50, min_amount = Some 50 \<rparr>
   \<and> dropped_late (fst (process_event watermark_delay late_payment open_state)) = 1
   \<and> snd (process_event watermark_delay late_payment open_state)
       = [(transform_transaction late_payment, ''NEGATIVE_AMOUNT'')]"
proof -
  let ?e1 = "transform_transaction (payment ''T1'' 50 (hms 12 21 0))"
  let ?e2 = "transform_transaction (payment ''T2'' 75 (hms 12 30 0))"
  let ?e3 = "transform_transaction (payment ''T4'' 10 (hms 12 45 0))"
  let ?a = "\<lparr> transaction_count = 1, total_amount = Some (Finite 50),
                max_amount = Some 50, min_amount = Some 50 \<rparr>"
  have A: "0 \<le> watermark_delay" by (simp add: watermark_delay_def minute_def)
  have d: "transaction_date late_payment = Some (hms 12 19 30)"
    by (simp add: late_payment_def payment_def)
  have l: "isLate watermark_delay open_state (hms 12 19 30)"
    by (simp add: isLate_def currentWatermark_def open_state_max watermark_delay_def
          minute_def hms_def)
  have nd: "\<not> due watermark_delay open_state open_key"
    by (simp add: due_def currentWatermark_def open_state_max window_end_def open_key_def
          watermark_delay_def minute_def hms_def)
  have o: "open_state = run watermark_delay (map Event [?e1, ?e2]) (start 0)"
    by (simp add: open_state_def)
  have g2: "group_amounts [?e1, ?e2] open_key = [Some 50]"
    using open_key_rows by (simp add: group_amounts_def transform_transaction_keeps payment_def)
  have g3: "group_amounts [?e1, ?e2, ?e3] open_key = [Some 50]"
    using open_key_rows by (simp add: group_amounts_def transform_transaction_keeps payment_def)
  have acc: "map_of (accumulator open_state) open_key = Some ?a"
    unfolding o accumulator_frame [OF open_events_on_time(1)]
    by (simp add: analytics_group_amounts g2 one_payment_fold)
  have r: "run watermark_delay closing_steps open_state
         = run watermark_delay (map Event [?e1, ?e2, ?e3] @ [Finalize]) (start 0)"
    by (simp add: o closing_steps_def)
  have m3: "maxEventTimeSeen (run watermark_delay (map Event [?e1, ?e2, ?e3]) (start 0))
          = hms 12 45 0"
    by (simp add: max_seen_accumulate transform_transaction_keeps payment_def start_def hms_def)
  have du: "due watermark_delay (run watermark_delay (map Event [?e1, ?e2, ?e3]) (start 0)) open_key"
    by (simp only: due_def currentWatermark_def m3)
       (simp add: window_end_def open_key_def watermark_delay_def minute_def hms_def)
  have snk: "map_of (sink (run watermark_delay closing_steps open_state)) open_key = Some ?a"
    unfolding r sink_frame [OF open_events_on_time(2)] using du
    by (simp add: analytics_group_amounts g3 one_payment_fold)
  have am: "amount late_payment = Some (- 20)" "status late_payment = Some ''SUCCESS''"
    by (simp_all add: late_payment_def payment_def)
  from late_event_dropped_and_alerted [OF d l, of closing_steps] A
  have "accumulator (fst (process_event watermark_delay late_payment open_state))
          = accumulator open_state
      \<and> dropped_late (fst (process_event watermark_delay late_payment open_state))
          = dropped_late open_state + 1
      \<and> sink (run watermark_delay closing_steps
                (fst (process_event watermark_delay late_payment open_state)))
          = sink (run watermark_delay closing_steps open_state)
      \<and> snd (process_event watermark_delay late_payment open_state)
          = [(transform_transaction late_payment, ''NEGATIVE_AMOUNT'')]"
    by (simp add: am high_value_transaction_def)
  moreover have "dropped_late open_state = 0"
    by (simp add: open_state_def accumulate_def Let_def track_def isLate_def currentWatermark_def
          transform_transaction_keeps payment_def start_def hms_def minute_def watermark_delay_def)
  ultimately show ?thesis using A d l nd acc snk open_key_rows(4) by simp
qed

section \<open>Emission\<close>

lemma count_distinct_key:
  "distinct (map fst m) \<Longrightarrow> k \<in> fst ` set m \<Longrightarrow> length (filter (\<lambda>p. fst p = k) m) = 1"
proof (induction m)
  case Nil
  then show ?case by simp
next
  case (Cons p m)
  show ?case
  proof (cases "fst p = k")
    case True
    with Cons.prems have "k \<notin> fst ` set m" by simp
    then have "filter (\<lambda>p. fst p = k) m = []"
      by (simp add: filter_empty_conv) blast
    with True show ?thesis by simp
  next
    case False
    with Cons show ?thesis by simp
  qed
qed

lemma finalize_evicts:
  "k \<in> fst ` set (accumulator (finalize A s)) \<Longrightarrow> \<not> due A s k"
proof -
  assume a: "k \<in> fst ` set (accumulator (finalize A s))"
  have "accumulator (finalize A s) = filter (\<lambda>p. \<not> due A s (fst p)) (accumulator s)"
    by (simp add: finalize_def)
  with a have "k \<in> fst ` set (filter (\<lambda>p. \<not> due A s (fst p)) (accumulator s))"
    by (simp only:)
  moreover have "fst ` set (filter (\<lambda>p. \<not> due A s (fst p)) (accumulator s))
      = {k \<in> fst ` set (accumulator s). \<not> due A s k}"
    by (rule keys_filter)
  ultimately show ?thesis by blast
qed

lemma keys_accumulate_on_time:
  assumes "transaction_date r = Some t" and "\<not> isLate A (track t s) t"
  shows "fst ` set (accumulator (accumulate A r s)) = set (tx_group_keys r) \<union> fst ` set (accumulator s)"
proof -
  from assms have "accumulator (accumulate A r s)
        = fold (\<lambda>k. upsert k (amount r)) (tx_group_keys r) (accumulator s)"
    by (simp add: accumulate_def Let_def track_def)
  then show ?thesis by (simp only: keys_fold_upsert)
qed

text \<open>
  Claim C2. In an execution without failures or retries no window key is emitted twice. A
  window key that was in the mapping at some point and is due after a finalizer pass has been
  emitted to the Sink exactly once and is no longer in the mapping.
\<close>

theorem window_emitted_exactly_once:
  assumes A: "0 \<le> A"
  shows "distinct (map fst (sink (run A steps (start m))))
       \<and> (k \<in> fst ` set (accumulator (run A pre (start m)))
            \<and> due A (run A (pre @ post @ [Finalize]) (start m)) k \<longrightarrow>
          length (filter (\<lambda>p. fst p = k) (sink (run A (pre @ post @ [Finalize]) (start m)))) = 1
          \<and> k \<notin> fst ` set (accumulator (run A (pre @ post @ [Finalize]) (start m))))"
proof (rule conjI)
  show "distinct (map fst (sink (run A steps (start m))))"
    using engine_inv_run [OF A engine_inv_start, of steps m] by (simp add: engine_inv_iff)
next
  let ?s1 = "run A pre (start m)"
  let ?s2 = "run A post ?s1"
  let ?s3 = "finalize A ?s2"
  have e: "run A (pre @ post @ [Finalize]) (start m) = ?s3"
    by (simp add: run_append)
  have "k \<in> fst ` set (accumulator ?s1) \<and> due A ?s3 k \<longrightarrow>
          length (filter (\<lambda>p. fst p = k) (sink ?s3)) = 1
          \<and> k \<notin> fst ` set (accumulator ?s3)"
  proof
    assume h: "k \<in> fst ` set (accumulator ?s1) \<and> due A ?s3 k"
    then have "k \<in> known ?s1" by (simp add: known_def)
    with known_run [of ?s1 A post] known_finalize [of ?s2 A] have k3: "k \<in> known ?s3" by blast
    from h have d2: "due A ?s2 k" by (simp add: due_def watermark_finalize)
    with finalize_evicts [of k A ?s2] have out: "k \<notin> fst ` set (accumulator ?s3)" by blast
    with k3 have "k \<in> fst ` set (sink ?s3)" by (simp add: known_def)
    moreover have "engine_inv A ?s3"
      by (intro engine_inv_finalize engine_inv_run A engine_inv_start)
    then have "distinct (map fst (sink ?s3))" by (simp add: engine_inv_iff)
    ultimately have "length (filter (\<lambda>p. fst p = k) (sink ?s3)) = 1"
      by (intro count_distinct_key)
    with out show "length (filter (\<lambda>p. fst p = k) (sink ?s3)) = 1
          \<and> k \<notin> fst ` set (accumulator ?s3)"
      by (rule conjI [rotated])
  qed
  then show "k \<in> fst ` set (accumulator (run A pre (start m)))
            \<and> due A (run A (pre @ post @ [Finalize]) (start m)) k \<longrightarrow>
          length (filter (\<lambda>p. fst p = k) (sink (run A (pre @ post @ [Finalize]) (start m)))) = 1
          \<and> k \<notin> fst ` set (accumulator (run A (pre @ post @ [Finalize]) (start m)))"
    by (simp only: e)
qed

theorem window_emitted_exactly_once_witness:
  "0 \<le> watermark_delay
   \<and> noon_key \<in> fst ` set (accumulator (run watermark_delay [Event first_event] (start 0)))
   \<and> due watermark_delay
        (run watermark_delay ([Event first_event] @ [Event later_event] @ [Finalize]) (start 0))
        noon_key
   \<and> length (filter (\<lambda>p. fst p = noon_key)
        (sink (run watermark_delay ([Event first_event] @ [Event later_event] @ [Finalize])
                 (start 0)))) = 1
   \<and> noon_key \<notin> fst ` set (accumulator
        (run watermark_delay ([Event first_event] @ [Event later_event] @ [Finalize]) (start 0)))"
proof -
  have h1: "0 \<le> watermark_delay" by (simp add: watermark_delay_def minute_def)
  have d1: "transaction_date first_event = Some (hms 12 3 30)"
    and d2: "transaction_date later_event = Some (hms 12 40 0)"
    by (simp_all add: first_event_def later_event_def transform_transaction_keeps payment_def)
  have u: "upper (trim ''hn'') = ''HN''" "upper (trim ''Payment'') = ''PAYMENT''"
    by code_simp+
  have w: "(hms 12 0 0, hms 12 5 0) \<in> set (window (Some (hms 12 3 30)) (5 * minute) minute)"
    by (simp only: window_five_minutes)
       (simp add: upt_rec [of _ "numeral _"] upt_rec [of _ "Suc _"] hms_def minute_def)
  have k: "noon_key \<in> set (tx_group_keys first_event)"
    unfolding first_event_def tx_group_keys_transform noon_key_def
    using w by (simp add: payment_def u)
  have fresh: "\<not> isLate watermark_delay (track (hms 12 3 30) (start 0)) (hms 12 3 30)"
    by (simp add: isLate_def currentWatermark_def track_def start_def watermark_delay_def
          minute_def hms_def)
  have h2: "noon_key \<in> fst ` set (accumulator (run watermark_delay [Event first_event] (start 0)))"
    using k keys_accumulate_on_time [OF d1 fresh] by simp
  have h3: "due watermark_delay
        (run watermark_delay ([Event first_event] @ [Event later_event] @ [Finalize]) (start 0))
        noon_key"
    by (simp add: due_def currentWatermark_def max_seen_finalize max_seen_accumulate d1 d2
          window_end_def noon_key_def start_def watermark_delay_def minute_def hms_def)
  from window_emitted_exactly_once [OF h1, where k = noon_key and pre = "[Event first_event]"
      and post = "[Event later_event]" and m = 0 and steps = "[]"] h1 h2 h3
  show ?thesis by blast
qed

section \<open>Order of delivery\<close>








end
